theory Spec2Isabelle
  imports Complex_Main
begin

section \<open>JavaScript values and host containers\<close>

text \<open>
  The values the tutorial classes store, return and throw. Numbers are the integer
  counts and payloads the classes are used with; \<open>JError m\<close> is \<open>new Error(m)\<close>.
  A thrown value can be any of them (\<open>throw\<close> accepts every value).
\<close>

datatype jsval = JUndefined | JNull | JBool bool | JNum int | JStr string | JError string

text \<open>
  A computation either throws (\<open>Inl\<close> the thrown value) or returns (\<open>Inr\<close>).
\<close>

type_synonym 'a completion = "jsval + 'a"

text \<open>
  An index into an array, as the ring buffers compute it: \<open>(p + 1) % size\<close> is \<open>NaN\<close>
  when \<open>size\<close> is \<open>0\<close> or \<open>p\<close> is already \<open>NaN\<close>.
\<close>

datatype jsnum = Idx nat | NaN

definition succ_mod :: "jsnum \<Rightarrow> nat \<Rightarrow> jsnum" where
  "succ_mod p n = (case p of NaN \<Rightarrow> NaN | Idx i \<Rightarrow> if n = 0 then NaN else Idx ((i + 1) mod n))"

text \<open>
  An array object as the ring buffers use it: a property per key that was assigned,
  nothing else. \<open>new Array(size)\<close> has no element (only holes), reading a key that
  was never assigned yields \<open>undefined\<close>, and assigning any key (in range, beyond the
  length, or \<open>NaN\<close>) defines that property.
\<close>

type_synonym jsarray = "jsnum \<Rightarrow> jsval option"

definition new_Array :: "nat \<Rightarrow> jsarray" where
  "new_Array n = (\<lambda>_. None)"

definition array_get :: "jsarray \<Rightarrow> jsnum \<Rightarrow> jsval" where
  "array_get a p = (case a p of None \<Rightarrow> JUndefined | Some v \<Rightarrow> v)"

definition array_set :: "jsarray \<Rightarrow> jsnum \<Rightarrow> jsval \<Rightarrow> jsarray" where
  "array_set a p v = a(p \<mapsto> v)"

text \<open>
  A \<open>Map\<close>: the entries in insertion order, one per key. \<open>set\<close> on a key that is
  present replaces the value in place (the key keeps its position), on a new key it
  appends; \<open>delete\<close> removes the entry; \<open>keys().next().value\<close> is the first key, or
  \<open>undefined\<close> (here \<open>None\<close>) on an empty map.
\<close>

type_synonym ('k, 'v) jsmap = "('k \<times> 'v) list"

definition map_has :: "('k, 'v) jsmap \<Rightarrow> 'k \<Rightarrow> bool" where
  "map_has m k = (map_of m k \<noteq> None)"

definition map_get :: "('k, 'v) jsmap \<Rightarrow> 'k \<Rightarrow> 'v option" where
  "map_get m k = map_of m k"

definition map_delete :: "('k, 'v) jsmap \<Rightarrow> 'k \<Rightarrow> ('k, 'v) jsmap" where
  "map_delete m k = filter (\<lambda>e. fst e \<noteq> k) m"

definition map_set :: "('k, 'v) jsmap \<Rightarrow> 'k \<Rightarrow> 'v \<Rightarrow> ('k, 'v) jsmap" where
  "map_set m k v =
     (if map_has m k then map (\<lambda>e. if fst e = k then (k, v) else e) m else m @ [(k, v)])"

definition map_size :: "('k, 'v) jsmap \<Rightarrow> int" where
  "map_size m = int (length m)"

definition map_first_key :: "('k, 'v) jsmap \<Rightarrow> 'k option" where
  "map_first_key m = (case m of [] \<Rightarrow> None | e # _ \<Rightarrow> Some (fst e))"

section \<open>The ring buffers\<close>

text \<open>
  The exercise \<open>CircularBuffer\<close> (array module, with a \<open>count\<close> field):
  \<^verbatim>\<open>
  constructor(size) { this.size = size; this.buffer = new Array(size);
                      this.writePtr = 0; this.readPtr = 0; this.count = 0; }
  write(value) { this.buffer[this.writePtr] = value;
                 this.writePtr = (this.writePtr + 1) % this.size;
                 this.count = Math.min(this.count + 1, this.size); }
  read() { if (this.count === 0) return null;
           const value = this.buffer[this.readPtr];
           this.readPtr = (this.readPtr + 1) % this.size;
           this.count--; return value; }
  \<close>
  The size is an array length (\<open>new Array\<close> throws a RangeError on anything else).
\<close>

record counted_buffer =
  size_c :: nat
  buffer_c :: jsarray
  writePtr_c :: jsnum
  readPtr_c :: jsnum
  count_c :: int

definition CircularBuffer_c :: "nat \<Rightarrow> counted_buffer" where
  "CircularBuffer_c n =
     \<lparr>size_c = n, buffer_c = new_Array n, writePtr_c = Idx 0, readPtr_c = Idx 0, count_c = 0\<rparr>"

definition write_c :: "counted_buffer \<Rightarrow> jsval \<Rightarrow> counted_buffer" where
  "write_c b v =
     b\<lparr>buffer_c := array_set (buffer_c b) (writePtr_c b) v,
       writePtr_c := succ_mod (writePtr_c b) (size_c b),
       count_c := min (count_c b + 1) (int (size_c b))\<rparr>"

definition read_c :: "counted_buffer \<Rightarrow> jsval \<times> counted_buffer" where
  "read_c b =
     (if count_c b = 0 then (JNull, b)
      else (array_get (buffer_c b) (readPtr_c b),
            b\<lparr>readPtr_c := succ_mod (readPtr_c b) (size_c b), count_c := count_c b - 1\<rparr>))"

text \<open>
  The \<open>CircularBuffer\<close> of the memory module (no \<open>count\<close> field, no check in \<open>read\<close>):
  \<^verbatim>\<open>
  constructor(size) { this.buffer = new Array(size); this.size = size;
                      this.writePtr = 0; this.readPtr = 0; }
  write(data) { this.buffer[this.writePtr] = data;
                this.writePtr = (this.writePtr + 1) % this.size; }
  read() { const data = this.buffer[this.readPtr];
           this.readPtr = (this.readPtr + 1) % this.size; return data; }
  \<close>
\<close>

record plain_buffer =
  size_p :: nat
  buffer_p :: jsarray
  writePtr_p :: jsnum
  readPtr_p :: jsnum

definition CircularBuffer_p :: "nat \<Rightarrow> plain_buffer" where
  "CircularBuffer_p n =
     \<lparr>size_p = n, buffer_p = new_Array n, writePtr_p = Idx 0, readPtr_p = Idx 0\<rparr>"

definition write_p :: "plain_buffer \<Rightarrow> jsval \<Rightarrow> plain_buffer" where
  "write_p b v =
     b\<lparr>buffer_p := array_set (buffer_p b) (writePtr_p b) v,
       writePtr_p := succ_mod (writePtr_p b) (size_p b)\<rparr>"

definition read_p :: "plain_buffer \<Rightarrow> jsval \<times> plain_buffer" where
  "read_p b =
     (array_get (buffer_p b) (readPtr_p b),
      b\<lparr>readPtr_p := succ_mod (readPtr_p b) (size_p b)\<rparr>)"

text \<open>
  A client's sequence of calls, and the results of its reads in order together with
  the buffer it leaves.
\<close>

datatype buffer_op = Write jsval | Read

fun run_c :: "counted_buffer \<Rightarrow> buffer_op list \<Rightarrow> jsval list \<times> counted_buffer" where
  "run_c b [] = ([], b)"
| "run_c b (Write v # ops) = run_c (write_c b v) ops"
| "run_c b (Read # ops) =
     (case read_c b of (r, b') \<Rightarrow> (case run_c b' ops of (rs, b'') \<Rightarrow> (r # rs, b'')))"

fun run_p :: "plain_buffer \<Rightarrow> buffer_op list \<Rightarrow> jsval list \<times> plain_buffer" where
  "run_p b [] = ([], b)"
| "run_p b (Write v # ops) = run_p (write_p b v) ops"
| "run_p b (Read # ops) =
     (case read_p b of (r, b') \<Rightarrow> (case run_p b' ops of (rs, b'') \<Rightarrow> (r # rs, b'')))"

text \<open>
  The fields the two classes share: the same size, array contents and pointers.
\<close>

definition same_ring :: "counted_buffer \<Rightarrow> plain_buffer \<Rightarrow> bool" where
  "same_ring c p =
     (size_c c = size_p p \<and> buffer_c c = buffer_p p \<and>
      writePtr_c c = writePtr_p p \<and> readPtr_c c = readPtr_p p)"

text \<open>
  No \<open>read\<close> of the sequence finds the counted buffer empty.
\<close>

fun reads_nonempty :: "counted_buffer \<Rightarrow> buffer_op list \<Rightarrow> bool" where
  "reads_nonempty b [] = True"
| "reads_nonempty b (Write v # ops) = reads_nonempty (write_c b v) ops"
| "reads_nonempty b (Read # ops) = (count_c b \<noteq> 0 \<and> reads_nonempty (snd (read_c b)) ops)"

section \<open>The LRU cache\<close>

text \<open>
  \<^verbatim>\<open>
  class LRUCache {
    constructor(capacity) { this.capacity = capacity; this.cache = new Map(); }
    get(key) { if (!this.cache.has(key)) return -1;
               const value = this.cache.get(key);
               this.cache.delete(key); this.cache.set(key, value); return value; }
    put(key, value) {
      if (this.cache.has(key)) { this.cache.delete(key); }
      else if (this.cache.size >= this.capacity) {
        const firstKey = this.cache.keys().next().value;
        this.cache.delete(firstKey); }
      this.cache.set(key, value); }
  }
  \<close>
  The constructor stores the capacity as it is given: any finite number, whole or not
  (with \<open>Infinity\<close> or \<open>NaN\<close> the test \<open>size >= capacity\<close> never holds and nothing is
  evicted). Keys are compared as \<open>Map\<close> compares them; values are not inspected. On an empty map \<open>firstKey\<close> is \<open>undefined\<close> and the
  \<open>delete\<close> removes nothing.
\<close>

record 'k lru_cache =
  capacity :: real
  cache :: "('k, jsval) jsmap"

definition LRUCache :: "real \<Rightarrow> 'k lru_cache" where
  "LRUCache cap = \<lparr>capacity = cap, cache = []\<rparr>"

definition LRUCache_get :: "'k lru_cache \<Rightarrow> 'k \<Rightarrow> jsval \<times> 'k lru_cache" where
  "LRUCache_get c key =
     (if \<not> map_has (cache c) key then (JNum (- 1), c)
      else
        let v = (case map_get (cache c) key of None \<Rightarrow> JUndefined | Some x \<Rightarrow> x);
            m1 = map_delete (cache c) key;
            m2 = map_set m1 key v
        in (v, c\<lparr>cache := m2\<rparr>))"

definition LRUCache_put :: "'k lru_cache \<Rightarrow> 'k \<Rightarrow> jsval \<Rightarrow> 'k lru_cache" where
  "LRUCache_put c key v =
     (let m1 =
        (if map_has (cache c) key then map_delete (cache c) key
         else if real_of_int (map_size (cache c)) \<ge> capacity c then
           (case map_first_key (cache c) of
              None \<Rightarrow> cache c
            | Some firstKey \<Rightarrow> map_delete (cache c) firstKey)
         else cache c)
      in c\<lparr>cache := map_set m1 key v\<rparr>)"

datatype 'k lru_op = Get 'k | Put 'k jsval

text \<open>
  A sequence of calls on one cache: the values the \<open>get\<close> calls return, in order, and
  the cache at the end.
\<close>

fun run_lru :: "'k lru_cache \<Rightarrow> 'k lru_op list \<Rightarrow> jsval list \<times> 'k lru_cache" where
  "run_lru c [] = ([], c)"
| "run_lru c (Get k # ops) =
     (case LRUCache_get c k of (r, c') \<Rightarrow> (case run_lru c' ops of (rs, c'') \<Rightarrow> (r # rs, c'')))"
| "run_lru c (Put k v # ops) = run_lru (LRUCache_put c k v) ops"

text \<open>
  What every reachable cache satisfies: one entry per key, and fewer entries than the
  capacity plus one (for a whole capacity: no more entries than the capacity).
\<close>

definition lru_inv :: "'k lru_cache \<Rightarrow> bool" where
  "lru_inv c =
     (distinct (map fst (cache c)) \<and> real_of_int (map_size (cache c)) < capacity c + 1)"

section \<open>assertThrows\<close>

text \<open>
  \<^verbatim>\<open>
  static assertThrows(fn) {
    try { fn(); throw new Error('Expected function to throw'); }
    catch (error) { return error; }
  }
  \<close>
  \<open>fn\<close> is a call that completes: it returns a value or throws one. The \<open>try\<close> block
  passes on what \<open>fn\<close> throws and otherwise throws its own error; the \<open>catch\<close>
  block returns whatever the \<open>try\<close> block threw.
\<close>

definition assertThrows_try :: "(unit \<Rightarrow> jsval completion) \<Rightarrow> jsval completion" where
  "assertThrows_try fn =
     (case fn () of
        Inl thrown \<Rightarrow> Inl thrown
      | Inr _ \<Rightarrow> Inl (JError ''Expected function to throw''))"

definition assertThrows :: "(unit \<Rightarrow> jsval completion) \<Rightarrow> jsval completion" where
  "assertThrows fn =
     (case assertThrows_try fn of
        Inl error \<Rightarrow> Inr error
      | Inr _ \<Rightarrow> Inr JUndefined)"

text \<open>
  The values that are \<open>Error\<close> objects.
\<close>

definition is_Error :: "jsval \<Rightarrow> bool" where
  "is_Error v = (case v of JError _ \<Rightarrow> True | _ \<Rightarrow> False)"

section \<open>The circuit breaker\<close>

text \<open>
  \<^verbatim>\<open>
  circuitBreaker: (operation, threshold = 5) => {
    let failures = 0; let lastFailure = null;
    return async (...args) => {
      if (failures >= threshold) {
        const timeSinceLastFailure = Date.now() - lastFailure;
        if (timeSinceLastFailure < 60000) { throw new Error('Circuit breaker open'); }
        failures = 0;
      }
      try { return await operation(...args); }
      catch (error) { failures++; lastFailure = Date.now(); throw error; }
    };
  }
  \<close>
  The closure's variables are the state; one call of the wrapper runs from its entry to
  its completion (calls do not overlap). A call reads the clock on entry (\<open>now\<close>) and,
  when the operation throws, again in the handler (\<open>failedAt\<close>). The result carries
  the argument lists \<open>operation\<close> was invoked with during the call. In
  \<open>Date.now() - lastFailure\<close> a \<open>null\<close> counts as \<open>0\<close>.
\<close>

record breaker =
  failures :: int
  lastFailure :: "int option"

definition circuitBreaker :: breaker where
  "circuitBreaker = \<lparr>failures = 0, lastFailure = None\<rparr>"

definition to_number :: "int option \<Rightarrow> int" where
  "to_number x = (case x of None \<Rightarrow> 0 | Some n \<Rightarrow> n)"

definition breaker_call ::
  "('a \<Rightarrow> jsval completion) \<Rightarrow> int \<Rightarrow> breaker \<Rightarrow> int \<Rightarrow> int \<Rightarrow> 'a \<Rightarrow>
   jsval completion \<times> breaker \<times> 'a list" where
  "breaker_call operation threshold s now failedAt args =
     (if failures s \<ge> threshold \<and> now - to_number (lastFailure s) < 60000
      then (Inl (JError ''Circuit breaker open''), s, [])
      else
        let s1 = (if failures s \<ge> threshold then s\<lparr>failures := 0\<rparr> else s)
        in case operation args of
             Inr v \<Rightarrow> (Inr v, s1, [args])
           | Inl error \<Rightarrow>
               (Inl error, s1\<lparr>failures := failures s1 + 1, lastFailure := Some failedAt\<rparr>, [args]))"

section \<open>The retry helpers\<close>

text \<open>
  \<^verbatim>\<open>
  async function retry(fn, attempts = 3, delay = 1000) {
    for (let i = 0; i < attempts; i++) {
      try { return await fn(); }
      catch (error) {
        if (i === attempts - 1) throw error;
        await new Promise(resolve => setTimeout(resolve, delay));
      }
    }
  }
  \<close>
  \<open>attempts\<close> is any finite number, whole or not (with \<open>NaN\<close> the loop makes no
  attempt, with \<open>Infinity\<close> it has no last one); the counter \<open>i\<close> is whole. \<open>fn\<close> may
  behave differently from call to call: \<open>fn n\<close> is what its call completes with after
  \<open>n\<close> earlier calls. The loop calls it once per value of \<open>i\<close>, starting at 0, so the
  call made at \<open>i\<close> is \<open>fn (nat i)\<close>. What the helper does is recorded as a list of
  events; falling out of the loop returns \<open>undefined\<close>.
\<close>

datatype retry_event = Invoke | Wait int | Warn int real

function retry_from ::
  "(nat \<Rightarrow> jsval completion) \<Rightarrow> real \<Rightarrow> int \<Rightarrow> int \<Rightarrow> jsval completion \<times> retry_event list" where
  "retry_from fn attempts delay i =
     (if real_of_int i < attempts then
        (case fn (nat i) of
           Inr v \<Rightarrow> (Inr v, [Invoke])
         | Inl error \<Rightarrow>
             if real_of_int i = attempts - 1 then (Inl error, [Invoke])
             else (case retry_from fn attempts delay (i + 1) of
                     (r, evs) \<Rightarrow> (r, Invoke # Wait delay # evs)))
      else (Inr JUndefined, []))"
  by pat_completeness auto
termination
proof (relation "measure (\<lambda>(fn, attempts, delay, i). nat (\<lceil>attempts\<rceil> - i))")
  show "wf (measure (\<lambda>(fn, attempts, delay, i). nat (\<lceil>attempts\<rceil> - i)))"
    by simp
next
  fix fn :: "nat \<Rightarrow> jsval completion" and attempts :: real and delay i :: int and x :: jsval
  assume "real_of_int i < attempts"
  then have "i < \<lceil>attempts\<rceil>"
    by (simp add: less_ceiling_iff)
  then show "((fn, attempts, delay, i + 1), (fn, attempts, delay, i))
      \<in> measure (\<lambda>(fn, attempts, delay, i). nat (\<lceil>attempts\<rceil> - i))"
    by simp
qed

definition retry :: "(nat \<Rightarrow> jsval completion) \<Rightarrow> real \<Rightarrow> int \<Rightarrow> jsval completion \<times> retry_event list" where
  "retry fn attempts delay = retry_from fn attempts delay 0"

text \<open>
  \<open>RetryMechanism.retry\<close> (and \<open>ErrorPatterns.retryOperation\<close>, which has the same
  body): the loop counts from 1 and logs a warning after each wait.
  \<^verbatim>\<open>
  static async retry(operation, maxAttempts = 3, delay = 1000) {
    for (let attempt = 1; attempt <= maxAttempts; attempt++) {
      try { return await operation(); }
      catch (error) {
        if (attempt === maxAttempts) throw error;
        await new Promise(resolve => setTimeout(resolve, delay));
        console.warn(`Retry attempt ${attempt} of ${maxAttempts}`);
      }
    }
  }
  \<close>
\<close>

function RetryMechanism_retry_from ::
  "(nat \<Rightarrow> jsval completion) \<Rightarrow> real \<Rightarrow> int \<Rightarrow> int \<Rightarrow> jsval completion \<times> retry_event list" where
  "RetryMechanism_retry_from operation maxAttempts delay attempt =
     (if real_of_int attempt \<le> maxAttempts then
        (case operation (nat (attempt - 1)) of
           Inr v \<Rightarrow> (Inr v, [Invoke])
         | Inl error \<Rightarrow>
             if real_of_int attempt = maxAttempts then (Inl error, [Invoke])
             else (case RetryMechanism_retry_from operation maxAttempts delay (attempt + 1) of
                     (r, evs) \<Rightarrow> (r, Invoke # Wait delay # Warn attempt maxAttempts # evs)))
      else (Inr JUndefined, []))"
  by pat_completeness auto
termination
proof (relation "measure (\<lambda>(operation, maxAttempts, delay, attempt). nat (\<lfloor>maxAttempts\<rfloor> + 1 - attempt))")
  show "wf (measure (\<lambda>(operation, maxAttempts, delay, attempt). nat (\<lfloor>maxAttempts\<rfloor> + 1 - attempt)))"
    by simp
next
  fix operation :: "nat \<Rightarrow> jsval completion" and maxAttempts :: real and delay attempt :: int
    and x :: jsval
  assume "real_of_int attempt \<le> maxAttempts"
  then have "attempt \<le> \<lfloor>maxAttempts\<rfloor>"
    by (simp add: le_floor_iff)
  then show "((operation, maxAttempts, delay, attempt + 1), (operation, maxAttempts, delay, attempt))
      \<in> measure (\<lambda>(operation, maxAttempts, delay, attempt). nat (\<lfloor>maxAttempts\<rfloor> + 1 - attempt))"
    by simp
qed

definition RetryMechanism_retry ::
  "(nat \<Rightarrow> jsval completion) \<Rightarrow> real \<Rightarrow> int \<Rightarrow> jsval completion \<times> retry_event list" where
  "RetryMechanism_retry operation maxAttempts delay =
     RetryMechanism_retry_from operation maxAttempts delay 1"

text \<open>
  The events of \<open>k\<close> failed attempts, each followed by its wait (and, in
  \<open>RetryMechanism\<close>, its warning), then the attempt that ends the loop.
\<close>

definition retry_trace :: "nat \<Rightarrow> int \<Rightarrow> retry_event list" where
  "retry_trace k delay = concat (replicate k [Invoke, Wait delay]) @ [Invoke]"

definition RetryMechanism_trace :: "nat \<Rightarrow> real \<Rightarrow> int \<Rightarrow> retry_event list" where
  "RetryMechanism_trace k maxAttempts delay =
     concat (map (\<lambda>j. [Invoke, Wait delay, Warn (int j + 1) maxAttempts]) [0..<k]) @ [Invoke]"

definition invocations :: "retry_event list \<Rightarrow> nat" where
  "invocations evs = length (filter (\<lambda>e. e = Invoke) evs)"

section \<open>The event emitters\<close>

text \<open>
  Callbacks are function objects, told apart by identity (\<open>'cb\<close>). What a callback
  does when called with the emitted data is given by \<open>bh\<close>: \<open>None\<close> when it returns,
  \<open>Some x\<close> when it throws \<open>x\<close>. This covers the callbacks that leave the emitter
  alone while they run, and only those: a callback that calls \<open>on\<close>, \<open>off\<close> or
  \<open>emit\<close> on the emitter that is calling it (or the unsubscribe closure that
  \<open>MemoryEfficientEmitter.on\<close> returns) changes the collection under the running
  \<open>forEach\<close>, where an array's \<open>forEach\<close> does not visit what is appended meanwhile
  and a \<open>Set\<close>'s does; such callbacks are outside this model and outside the
  statements made with it. The emitters look event names up in a \<open>Map\<close> and never
  iterate over it, so the \<open>Map\<close> is a finite map from names. An \<open>emit\<close> yields the
  calls it made, in order, with what it threw if it did, and the emitter it leaves.

  \<open>forEach\<close> over an array or a \<open>Set\<close> that no callback modifies meanwhile: it
  calls the callbacks in order and stops at the first that throws.
\<close>

type_synonym ('cb, 'd) dispatch = "('cb \<times> 'd) list \<times> jsval option"

fun forEach_call :: "('cb \<Rightarrow> 'd \<Rightarrow> jsval option) \<Rightarrow> 'cb list \<Rightarrow> 'd \<Rightarrow> ('cb, 'd) dispatch" where
  "forEach_call bh [] d = ([], None)"
| "forEach_call bh (cb # cbs) d =
     (case bh cb d of
        Some thrown \<Rightarrow> ([(cb, d)], Some thrown)
      | None \<Rightarrow> (case forEach_call bh cbs d of (calls, r) \<Rightarrow> ((cb, d) # calls, r)))"

text \<open>
  \<open>EventEmitter\<close> (functions module): an array of callbacks per event.
  \<^verbatim>\<open>
  on(event, callback) {
    if (!this.events.has(event)) { this.events.set(event, []); }
    this.events.get(event).push(callback); }
  emit(event, data) {
    if (this.events.has(event)) {
      this.events.get(event).forEach(callback => callback(data)); } }
  \<close>
  In \<open>on\<close> the \<open>get\<close> follows the \<open>set\<close>, so it finds an array.
\<close>

type_synonym ('ev, 'cb) EventEmitter = "'ev \<rightharpoonup> 'cb list"

definition EventEmitter :: "('ev, 'cb) EventEmitter" where
  "EventEmitter = Map.empty"

definition EventEmitter_on :: "('ev, 'cb) EventEmitter \<Rightarrow> 'ev \<Rightarrow> 'cb \<Rightarrow> ('ev, 'cb) EventEmitter" where
  "EventEmitter_on events event callback =
     (let events1 = (if events event = None then events(event \<mapsto> []) else events)
      in case events1 event of
           Some cbs \<Rightarrow> events1(event \<mapsto> cbs @ [callback])
         | None \<Rightarrow> events1)"

definition EventEmitter_emit ::
  "('cb \<Rightarrow> 'd \<Rightarrow> jsval option) \<Rightarrow> ('ev, 'cb) EventEmitter \<Rightarrow> 'ev \<Rightarrow> 'd \<Rightarrow>
   ('cb, 'd) dispatch \<times> ('ev, 'cb) EventEmitter" where
  "EventEmitter_emit bh events event d =
     (case events event of
        Some cbs \<Rightarrow> (forEach_call bh cbs d, events)
      | None \<Rightarrow> (([], None), events))"

text \<open>
  \<open>MemoryEfficientEmitter\<close> (memory module): a \<open>Set\<close> of callbacks per event. A
  \<open>Set\<close> keeps its elements in insertion order, and adding an element it already
  holds changes nothing.
  \<^verbatim>\<open>
  on(event, callback) {
    if (!this.events.has(event)) { this.events.set(event, new Set()); }
    this.events.get(event).add(callback);
    return () => this.off(event, callback); }
  off(event, callback) {
    const callbacks = this.events.get(event);
    if (callbacks) { callbacks.delete(callback);
                     if (callbacks.size === 0) { this.events.delete(event); } } }
  emit(event, ...args) {
    const callbacks = this.events.get(event);
    if (callbacks) { callbacks.forEach(callback => callback(...args)); } }
  \<close>
\<close>

definition set_add :: "'a list \<Rightarrow> 'a \<Rightarrow> 'a list" where
  "set_add s x = (if x \<in> set s then s else s @ [x])"

definition set_delete :: "'a list \<Rightarrow> 'a \<Rightarrow> 'a list" where
  "set_delete s x = filter (\<lambda>y. y \<noteq> x) s"

type_synonym ('ev, 'cb) MemoryEfficientEmitter = "'ev \<rightharpoonup> 'cb list"

definition MemoryEfficientEmitter :: "('ev, 'cb) MemoryEfficientEmitter" where
  "MemoryEfficientEmitter = Map.empty"

definition MemoryEfficientEmitter_on ::
  "('ev, 'cb) MemoryEfficientEmitter \<Rightarrow> 'ev \<Rightarrow> 'cb \<Rightarrow> ('ev, 'cb) MemoryEfficientEmitter" where
  "MemoryEfficientEmitter_on events event callback =
     (let events1 = (if events event = None then events(event \<mapsto> []) else events)
      in case events1 event of
           Some callbacks \<Rightarrow> events1(event \<mapsto> set_add callbacks callback)
         | None \<Rightarrow> events1)"

definition MemoryEfficientEmitter_off ::
  "('ev, 'cb) MemoryEfficientEmitter \<Rightarrow> 'ev \<Rightarrow> 'cb \<Rightarrow> ('ev, 'cb) MemoryEfficientEmitter" where
  "MemoryEfficientEmitter_off events event callback =
     (case events event of
        None \<Rightarrow> events
      | Some callbacks \<Rightarrow>
          let callbacks1 = set_delete callbacks callback;
              events1 = events(event \<mapsto> callbacks1)
          in if length callbacks1 = 0 then events1(event := None) else events1)"

definition MemoryEfficientEmitter_emit ::
  "('cb \<Rightarrow> 'd \<Rightarrow> jsval option) \<Rightarrow> ('ev, 'cb) MemoryEfficientEmitter \<Rightarrow> 'ev \<Rightarrow> 'd \<Rightarrow>
   ('cb, 'd) dispatch \<times> ('ev, 'cb) MemoryEfficientEmitter" where
  "MemoryEfficientEmitter_emit bh events event args =
     (case events event of
        Some callbacks \<Rightarrow> (forEach_call bh callbacks args, events)
      | None \<Rightarrow> (([], None), events))"

text \<open>
  \<open>EventSystem\<close> (events module): a \<open>Set\<close> of listener objects per event. Each
  \<open>on\<close> makes a new object, which no earlier element of the \<open>Set\<close> is identical to, so
  the \<open>Set\<close> is the list of the objects added.
  \<^verbatim>\<open>
  on(event, callback, options = {}) {
    if (!this.listeners.has(event)) { this.listeners.set(event, new Set()); }
    this.listeners.get(event).add({ callback, options }); }
  off(event, callback) {
    if (!this.listeners.has(event)) return;
    const listeners = this.listeners.get(event);
    listeners.forEach(listener => {
      if (listener.callback === callback) { listeners.delete(listener); } }); }
  emit(event, data) {
    if (!this.listeners.has(event)) return;
    this.listeners.get(event).forEach(({ callback, options }) => {
      if (options.once) { this.off(event, callback); }
      callback(data); }); }
  \<close>
  In \<open>emit\<close>, \<open>off\<close> deletes from the \<open>Set\<close> being iterated: listeners deleted
  before their turn are not visited. The dispatch keeps the listeners already visited
  that are still in the \<open>Set\<close> (\<open>kept\<close>) and those still to visit (\<open>todo\<close>).
\<close>

record listener_options =
  once :: bool

definition default_options :: listener_options where
  "default_options = \<lparr>once = False\<rparr>"

record 'cb listener =
  callback :: 'cb
  options :: listener_options

type_synonym ('ev, 'cb) EventSystem = "'ev \<rightharpoonup> 'cb listener list"

definition EventSystem :: "('ev, 'cb) EventSystem" where
  "EventSystem = Map.empty"

definition EventSystem_on ::
  "('ev, 'cb) EventSystem \<Rightarrow> 'ev \<Rightarrow> 'cb \<Rightarrow> listener_options \<Rightarrow> ('ev, 'cb) EventSystem" where
  "EventSystem_on listeners event cb opts =
     (let listeners1 = (if listeners event = None then listeners(event \<mapsto> []) else listeners)
      in case listeners1 event of
           Some ls \<Rightarrow> listeners1(event \<mapsto> ls @ [\<lparr>callback = cb, options = opts\<rparr>])
         | None \<Rightarrow> listeners1)"

definition EventSystem_off :: "('ev, 'cb) EventSystem \<Rightarrow> 'ev \<Rightarrow> 'cb \<Rightarrow> ('ev, 'cb) EventSystem" where
  "EventSystem_off listeners event cb =
     (case listeners event of
        None \<Rightarrow> listeners
      | Some ls \<Rightarrow> listeners(event \<mapsto> filter (\<lambda>l. callback l \<noteq> cb) ls))"

fun EventSystem_dispatch ::
  "('cb \<Rightarrow> 'd \<Rightarrow> jsval option) \<Rightarrow> 'd \<Rightarrow> 'cb listener list \<Rightarrow> 'cb listener list \<Rightarrow>
   ('cb, 'd) dispatch \<times> 'cb listener list" where
  "EventSystem_dispatch bh d kept [] = (([], None), kept)"
| "EventSystem_dispatch bh d kept (l # todo) =
     (if once (options l) then
        (case bh (callback l) d of
           Some thrown \<Rightarrow>
             (([(callback l, d)], Some thrown),
              filter (\<lambda>x. callback x \<noteq> callback l) kept @ filter (\<lambda>x. callback x \<noteq> callback l) todo)
         | None \<Rightarrow>
             (case EventSystem_dispatch bh d (filter (\<lambda>x. callback x \<noteq> callback l) kept)
                     (filter (\<lambda>x. callback x \<noteq> callback l) todo) of
                ((calls, r), ls) \<Rightarrow> (((callback l, d) # calls, r), ls)))
      else
        (case bh (callback l) d of
           Some thrown \<Rightarrow> (([(callback l, d)], Some thrown), (kept @ [l]) @ todo)
         | None \<Rightarrow>
             (case EventSystem_dispatch bh d (kept @ [l]) todo of
                ((calls, r), ls) \<Rightarrow> (((callback l, d) # calls, r), ls))))"

definition EventSystem_emit ::
  "('cb \<Rightarrow> 'd \<Rightarrow> jsval option) \<Rightarrow> ('ev, 'cb) EventSystem \<Rightarrow> 'ev \<Rightarrow> 'd \<Rightarrow>
   ('cb, 'd) dispatch \<times> ('ev, 'cb) EventSystem" where
  "EventSystem_emit bh listeners event d =
     (case listeners event of
        None \<Rightarrow> (([], None), listeners)
      | Some ls \<Rightarrow>
          (case EventSystem_dispatch bh d [] ls of
             (result, ls') \<Rightarrow> (result, listeners(event \<mapsto> ls'))))"

text \<open>
  A sequence of \<open>on(event, callback)\<close> calls on a new emitter (in \<open>EventSystem\<close> the
  options take their default, \<open>{}\<close>), and the callbacks it registers for one event, in
  the order of the calls.
\<close>

definition EventEmitter_register :: "('ev \<times> 'cb) list \<Rightarrow> ('ev, 'cb) EventEmitter" where
  "EventEmitter_register regs = foldl (\<lambda>m r. EventEmitter_on m (fst r) (snd r)) EventEmitter regs"

definition MemoryEfficientEmitter_register :: "('ev \<times> 'cb) list \<Rightarrow> ('ev, 'cb) MemoryEfficientEmitter" where
  "MemoryEfficientEmitter_register regs =
     foldl (\<lambda>m r. MemoryEfficientEmitter_on m (fst r) (snd r)) MemoryEfficientEmitter regs"

definition EventSystem_register :: "('ev \<times> 'cb) list \<Rightarrow> ('ev, 'cb) EventSystem" where
  "EventSystem_register regs =
     foldl (\<lambda>m r. EventSystem_on m (fst r) (snd r) default_options) EventSystem regs"

definition registered :: "('ev \<times> 'cb) list \<Rightarrow> 'ev \<Rightarrow> 'cb list" where
  "registered regs event = map snd (filter (\<lambda>r. fst r = event) regs)"

text \<open>
  The callbacks a dispatch over \<open>cbs\<close> reaches: all of them up to and including the
  first that throws, and what that one throws.
\<close>

definition reached :: "('cb \<Rightarrow> 'd \<Rightarrow> jsval option) \<Rightarrow> 'cb list \<Rightarrow> 'd \<Rightarrow> 'cb list" where
  "reached bh cbs d =
     takeWhile (\<lambda>cb. bh cb d = None) cbs @ take 1 (dropWhile (\<lambda>cb. bh cb d = None) cbs)"

definition thrown_by :: "('cb \<Rightarrow> 'd \<Rightarrow> jsval option) \<Rightarrow> 'cb list \<Rightarrow> 'd \<Rightarrow> jsval option" where
  "thrown_by bh cbs d =
     (case dropWhile (\<lambda>cb. bh cb d = None) cbs of [] \<Rightarrow> None | cb # _ \<Rightarrow> bh cb d)"

text \<open>
  The distinct elements of a list, each at the place of its first occurrence.
\<close>

definition first_occurrences :: "'a list \<Rightarrow> 'a list" where
  "first_occurrences xs = rev (remdups (rev xs))"

text \<open>
  The callbacks (or listeners) an emitter holds for an event: none when the event has
  no entry.
\<close>

definition slot :: "('ev \<rightharpoonup> 'a list) \<Rightarrow> 'ev \<Rightarrow> 'a list" where
  "slot m event = (case m event of None \<Rightarrow> [] | Some xs \<Rightarrow> xs)"

section \<open>The test runner\<close>

text \<open>
  \<^verbatim>\<open>
  class TestRunner {
    constructor() { this.tests = new Map(); this.beforeEach = null; this.afterEach = null; }
    // Add test case
    test(name, testFn) { this.tests.set(name, testFn); }
    // Setup function to run before each test
    before(fn) { this.beforeEach = fn; }
    // Cleanup function to run after each test
    after(fn) { this.afterEach = fn; }
    // Run all tests
    async runTests() {
      const results = { passed: 0, failed: 0, total: this.tests.size, failures: [] };
      for (const [name, testFn] of this.tests) {
        try {
          if (this.beforeEach) await this.beforeEach();
          await testFn();
          if (this.afterEach) await this.afterEach();
          results.passed++;
          console.log(`(pass mark) ${name}`);
        } catch (error) {
          results.failed++;
          results.failures.push({ name, error });
          console.error(`(fail mark) ${name}: ${error.message}`);
        }
      }
      return results;
    }
  }
  \<close>
  A test or hook is a closure over the surroundings it works on (\<open>'w\<close>): run on them,
  it leaves them changed and either returns (\<open>None\<close>) or throws (\<open>Some\<close> the thrown
  value). Reading \<open>error.message\<close> throws a TypeError when the thrown value is
  \<open>null\<close> or \<open>undefined\<close>; that happens inside the \<open>catch\<close> block, so it ends
  \<open>runTests\<close>. The console is the list of lines written. The field \<open>failures\<close> of
  the results is \<open>failures_r\<close> here (the circuit breaker's counter has the name).
\<close>

type_synonym 'w thunk = "'w \<Rightarrow> jsval option \<times> 'w"

record 'w TestRunner =
  tests :: "(string, 'w thunk) jsmap"
  beforeEach :: "'w thunk option"
  afterEach :: "'w thunk option"

definition TestRunner :: "'w TestRunner" where
  "TestRunner = \<lparr>tests = [], beforeEach = None, afterEach = None\<rparr>"

definition test :: "'w TestRunner \<Rightarrow> string \<Rightarrow> 'w thunk \<Rightarrow> 'w TestRunner" where
  "test r name testFn = r\<lparr>tests := map_set (tests r) name testFn\<rparr>"

definition before :: "'w TestRunner \<Rightarrow> 'w thunk \<Rightarrow> 'w TestRunner" where
  "before r fn = r\<lparr>beforeEach := Some fn\<rparr>"

definition after :: "'w TestRunner \<Rightarrow> 'w thunk \<Rightarrow> 'w TestRunner" where
  "after r fn = r\<lparr>afterEach := Some fn\<rparr>"

record results =
  passed :: int
  failed :: int
  total :: int
  failures_r :: "(string \<times> jsval) list"

datatype console_line = ConsoleLog string | ConsoleError string jsval

definition message_of :: "jsval \<Rightarrow> jsval completion" where
  "message_of error =
     (case error of
        JNull \<Rightarrow> Inl (JError ''TypeError: Cannot read properties of null'')
      | JUndefined \<Rightarrow> Inl (JError ''TypeError: Cannot read properties of undefined'')
      | JError m \<Rightarrow> Inr (JStr m)
      | _ \<Rightarrow> Inr JUndefined)"

fun run_hook :: "'w thunk option \<Rightarrow> 'w \<Rightarrow> jsval option \<times> 'w" where
  "run_hook None w = (None, w)"
| "run_hook (Some fn) w = fn w"

text \<open>
  The three calls of the \<open>try\<close> block: the first that throws ends the block.
\<close>

definition try_block :: "'w TestRunner \<Rightarrow> 'w thunk \<Rightarrow> 'w \<Rightarrow> jsval option \<times> 'w" where
  "try_block r testFn w =
     (case run_hook (beforeEach r) w of
        (Some error, w1) \<Rightarrow> (Some error, w1)
      | (None, w1) \<Rightarrow>
          (case testFn w1 of
             (Some error, w2) \<Rightarrow> (Some error, w2)
           | (None, w2) \<Rightarrow> run_hook (afterEach r) w2))"

fun runTests_loop ::
  "'w TestRunner \<Rightarrow> (string \<times> 'w thunk) list \<Rightarrow> results \<Rightarrow> console_line list \<Rightarrow> 'w \<Rightarrow>
   results completion \<times> console_line list \<times> 'w" where
  "runTests_loop r [] res out w = (Inr res, out, w)"
| "runTests_loop r ((name, testFn) # rest) res out w =
     (case try_block r testFn w of
        (None, w1) \<Rightarrow>
          runTests_loop r rest (res\<lparr>passed := passed res + 1\<rparr>) (out @ [ConsoleLog name]) w1
      | (Some error, w1) \<Rightarrow>
          (case message_of error of
             Inl typeError \<Rightarrow> (Inl typeError, out, w1)
           | Inr message \<Rightarrow>
               runTests_loop r rest
                 (res\<lparr>failed := failed res + 1, failures_r := failures_r res @ [(name, error)]\<rparr>)
                 (out @ [ConsoleError name message]) w1))"

definition runTests :: "'w TestRunner \<Rightarrow> 'w \<Rightarrow> results completion \<times> console_line list \<times> 'w" where
  "runTests r w =
     runTests_loop r (tests r)
       \<lparr>passed = 0, failed = 0, total = map_size (tests r), failures_r = []\<rparr> [] w"

section \<open>The export blocks\<close>

text \<open>
  A file that exports does so in its last statement,
  \<^verbatim>\<open>
  if (typeof module !== 'undefined') { module.exports = { A, B, ... }; }
  \<close>
  What the statement does depends on the host: whether an identifier \<open>module\<close> is
  declared, and the exports its object holds (here the names exported). \<open>typeof\<close> of
  an undeclared identifier is \<open>'undefined'\<close> and throws nothing; any other use of an
  undeclared identifier, as in \<open>module.exports = ...\<close>, throws a ReferenceError.
\<close>

datatype module_binding = Undeclared | Module "string list"

definition typeof_module :: "module_binding \<Rightarrow> string" where
  "typeof_module h = (case h of Undeclared \<Rightarrow> ''undefined'' | Module _ \<Rightarrow> ''object'')"

definition assign_exports :: "string list \<Rightarrow> module_binding \<Rightarrow> module_binding completion" where
  "assign_exports names h =
     (case h of
        Undeclared \<Rightarrow> Inl (JError ''ReferenceError: module is not defined'')
      | Module _ \<Rightarrow> Inr (Module names))"

text \<open>
  An export statement at the top level of a file: the assignment inside the check of
  \<open>typeof module\<close>, or the bare assignment.
\<close>

datatype export_stmt = Guarded "string list" | Unguarded "string list"

fun run_export :: "export_stmt \<Rightarrow> module_binding \<Rightarrow> module_binding completion" where
  "run_export (Guarded names) h =
     (if typeof_module h \<noteq> ''undefined'' then assign_exports names h else Inr h)"
| "run_export (Unguarded names) h = assign_exports names h"

text \<open>
  Every statement of the source files that assigns \<open>module.exports\<close>, with its file and
  line. (Two files hold two tutorial modules each, so two statements. The files that are
  not listed assign no exports; one of them uses \<open>export\<close> declarations instead.)
\<close>

definition export_statements :: "(string \<times> nat \<times> export_stmt) list" where
  "export_statements =
     [
      (''01_JS_Introduction.js'', 216,
       Guarded [''helloWorld'', ''detectEnvironment'', ''safeOperation'']),
      (''01_JS_Introduction.js'', 553,
       Guarded [''CallbackBasics'', ''PromiseExamples'', ''AsyncAwaitExamples'',
         ''AdvancedAsyncPatterns'', ''AsyncErrorHandling'', ''RetryMechanism'',
         ''RateLimiter'', ''AsyncQueue'']),
      (''03_Operators_ControlFlow.js'', 315,
       Guarded [''OperatorExamples'', ''ControlFlowExamples'', ''AdvancedControlFlow'',
         ''InterviewQuestions'', ''customForEach'', ''safeNavigate'', ''patternMatch'']),
      (''05_Objects_OOP.js'', 380,
       Guarded [''PropertyExamples'', ''InheritanceExamples'', ''DesignPatterns'',
         ''InterviewQuestions'', ''ObjectPool'', ''Calculator'',
         ''createValidatedObject'']),
      (''05_dataTypesInterviewPrep.js'', 550,
       Guarded [''DateBasics'', ''DateManipulation'', ''DateFormatting'',
         ''TimezoneHandling'', ''DateUtility'', ''DateRange'', ''CalendarBuilder'']),
      (''08_Error_Handling.js'', 362,
       Guarded [''ErrorBasics'', ''ErrorHandling'', ''DebuggingTechniques'',
         ''ErrorPatterns'', ''AdvancedErrorHandling'', ''ApiCaller'',
         ''withErrorBoundary'', ''DebugUtility'']),
      (''08_Error_Handling.js'', 578,
       Guarded [''TypeConversion'', ''InterviewQuestions'', ''identifyType'',
         ''safeTypeConversion'', ''deepFreeze'']),
      (''10_DOM_Manipulation.js'', 396,
       Guarded [''DOMBasics'', ''ElementManipulation'', ''EventHandling'',
         ''AdvancedDOM'', ''DOMPerformance'', ''ListManager'', ''InfiniteScroll'',
         ''FormValidator'']),
      (''11_Events.js'', 345,
       Guarded [''EventBasics'', ''EventObjectExplorer'', ''EventPropagation'',
         ''EventPatterns'', ''AdvancedEventHandling'', ''InfiniteScroll'',
         ''EventSystem'', ''FormValidator'']),
      (''13_ES6_Features.js'', 311,
       Guarded [''VariableDeclarations'', ''ArrowFunctions'', ''TemplateLiterals'',
         ''Destructuring'', ''SpreadAndRest'', ''ModernClass'', ''ClassFeatures'',
         ''ModernDataStructures'', ''IteratorsAndGenerators'']),
      (''15_Memory_Management.js'', 336,
       Guarded [''MemoryLifecycle'', ''MemoryLeaks'', ''MemoryOptimization'',
         ''GarbageCollection'', ''MemoryMonitoring'', ''LRUCache'',
         ''MemoryEfficientEmitter'', ''MemoryMonitor'']),
      (''16_Security.js'', 397,
       Guarded [''InputValidation'', ''XSSPrevention'', ''CSRFProtection'',
         ''SecureStorage'', ''APISecurityPractices'', ''SecureCoding'',
         ''SecureFormHandler'', ''SecureAPIClient'', ''SecureStorageManager'']),
      (''18_Performance.js'', 328,
       Guarded [''CodeOptimization'', ''DOMPerformance'', ''ResourceOptimization'',
         ''RenderingOptimization'', ''MemoryOptimization'', ''PerformanceMonitoring'']),
      (''21_PWA.js'', 383,
       Guarded [''ManifestGenerator'', ''PWAServiceWorker'', ''OfflineManager'',
         ''PushManager'', ''InstallationHandler'', ''PWAInstallUI'', ''OfflineSync'',
         ''serviceWorkerSetup'']),
      (''unnamed/part_000'', 334,
       Guarded [''TestRunner'', ''Assertions'', ''MockFactory'', ''TestDoubles'',
         ''AsyncTestUtils'', ''UserService'', ''UserServiceTests'',
         ''EventEmitterTests'', ''AsyncTests'']),
      (''unnamed/part_002'', 308,
       Guarded [''StringBasics'', ''StringMethods'', ''RegExpBasics'',
         ''AdvancedStringOperations'', ''StringOptimization'',
         ''StringInterviewQuestions'', ''StringBuilder'', ''TemplateEngine'',
         ''SimpleParser'']),
      (''unnamed/part_004'', 413,
       Guarded [''ParameterExamples'', ''ScopeExamples'', ''ThisContextExamples'',
         ''AdvancedFunctions'', ''FunctionPatterns'', ''InterviewQuestions'',
         ''pipeline'', ''retry'', ''EventEmitter'']),
      (''unnamed/part_005'', 292,
       Guarded [''ArrayBasics'', ''ArrayMethods'', ''AdvancedArrayOperations'',
         ''ArrayOptimization'', ''ArrayInterviewQuestions'', ''CircularBuffer'',
         ''SparseArray'', ''ArrayPool'']),
      (''unnamed/part_007'', 351,
       Guarded [''StorageAPIs'', ''GeolocationAPI'', ''NotificationAPI'', ''MediaAPIs'',
         ''CanvasAPI'']),
      (''unnamed/part_008'', 344,
       Guarded [''WorkerManager'', ''DedicatedWorker'', ''SharedWorkerManager'',
         ''ServiceWorkerManager'', ''WorkerUtils'', ''imageProcessingWorker'',
         ''dataProcessingWorker'', ''serviceWorkerCache''])
     ]"

section \<open>Ring buffer: the count stays within bounds\<close>






section \<open>Ring buffers: the two classes compared\<close>

lemma same_ring_write:
  "same_ring c p \<Longrightarrow> same_ring (write_c c v) (write_p p v)"
  by (simp add: same_ring_def write_c_def write_p_def)

lemma same_ring_read:
  "same_ring c p \<Longrightarrow> count_c c \<noteq> 0 \<Longrightarrow>
   fst (read_c c) = fst (read_p p) \<and> same_ring (snd (read_c c)) (snd (read_p p))"
  by (simp add: same_ring_def read_c_def read_p_def)

lemma run_agree:
  "same_ring c p \<Longrightarrow> reads_nonempty c ops \<Longrightarrow>
   fst (run_c c ops) = fst (run_p p ops) \<and> same_ring (snd (run_c c ops)) (snd (run_p p ops))"
proof (induction ops arbitrary: c p)
  case Nil
  then show ?case by simp
next
  case (Cons x ops)
  show ?case
  proof (cases x)
    case (Write v)
    with Cons.prems have "same_ring (write_c c v) (write_p p v)"
      and "reads_nonempty (write_c c v) ops"
      by (simp_all add: same_ring_write)
    from Cons.IH [OF this] Write show ?thesis by simp
  next
    case Read
    with Cons.prems have ne: "count_c c \<noteq> 0" and rest: "reads_nonempty (snd (read_c c)) ops"
      by simp_all
    from same_ring_read [OF Cons.prems(1) ne]
    have r: "fst (read_c c) = fst (read_p p)" and s: "same_ring (snd (read_c c)) (snd (read_p p))"
      by simp_all
    from Cons.IH [OF s rest] r Read show ?thesis
      by (simp add: split_beta)
  qed
qed

text \<open>
  C4, as stated, fails. The source holds two \<open>CircularBuffer\<close> classes, not three, and
  they differ: on a fresh buffer of size 2 the calls \<open>read(); write(7); read()\<close> yield
  \<open>null, 7\<close> from the counted class (its first \<open>read\<close> is refused and moves nothing)
  and \<open>undefined, undefined\<close> from the other (its first \<open>read\<close> advances the read
  pointer past the slot that \<open>write\<close> then fills); the buffers they leave differ too.
\<close>

theorem ring_buffers_differ:
  "fst (run_c (CircularBuffer_c 2) [Read, Write (JNum 7), Read]) = [JNull, JNum 7] \<and>
   fst (run_p (CircularBuffer_p 2) [Read, Write (JNum 7), Read]) = [JUndefined, JUndefined] \<and>
   \<not> same_ring (snd (run_c (CircularBuffer_c 2) [Read, Write (JNum 7), Read]))
                (snd (run_p (CircularBuffer_p 2) [Read, Write (JNum 7), Read]))"
  by (simp add: CircularBuffer_c_def CircularBuffer_p_def read_c_def read_p_def write_c_def
      write_p_def new_Array_def array_get_def array_set_def succ_mod_def same_ring_def)

text \<open>
  C4, amended. The two classes give the same read results and leave the same size, array
  and pointers on every sequence of calls, from buffers of the same size, in which no
  \<open>read\<close> finds the counted buffer empty.
\<close>

theorem ring_buffers_agree_without_empty_reads:
  "reads_nonempty (CircularBuffer_c n) ops \<Longrightarrow>
   fst (run_c (CircularBuffer_c n) ops) = fst (run_p (CircularBuffer_p n) ops) \<and>
   same_ring (snd (run_c (CircularBuffer_c n) ops)) (snd (run_p (CircularBuffer_p n) ops))"
proof -
  assume ne: "reads_nonempty (CircularBuffer_c n) ops"
  have "same_ring (CircularBuffer_c n) (CircularBuffer_p n)"
    by (simp add: same_ring_def CircularBuffer_c_def CircularBuffer_p_def)
  from run_agree [OF this ne] show ?thesis .
qed

theorem ring_buffers_agree_witness:
  "reads_nonempty (CircularBuffer_c 2)
     [Write (JNum 1), Write (JNum 2), Read, Write (JNum 3), Read, Read] \<and>
   (fst (run_c (CircularBuffer_c 2)
      [Write (JNum 1), Write (JNum 2), Read, Write (JNum 3), Read, Read]) =
    fst (run_p (CircularBuffer_p 2)
      [Write (JNum 1), Write (JNum 2), Read, Write (JNum 3), Read, Read]) \<and>
    same_ring
      (snd (run_c (CircularBuffer_c 2)
        [Write (JNum 1), Write (JNum 2), Read, Write (JNum 3), Read, Read]))
      (snd (run_p (CircularBuffer_p 2)
        [Write (JNum 1), Write (JNum 2), Read, Write (JNum 3), Read, Read])))"
proof
  show ne: "reads_nonempty (CircularBuffer_c 2)
     [Write (JNum 1), Write (JNum 2), Read, Write (JNum 3), Read, Read]"
    by (simp add: CircularBuffer_c_def read_c_def write_c_def)
  from ring_buffers_agree_without_empty_reads [OF ne]
  show "fst (run_c (CircularBuffer_c 2)
      [Write (JNum 1), Write (JNum 2), Read, Write (JNum 3), Read, Read]) =
    fst (run_p (CircularBuffer_p 2)
      [Write (JNum 1), Write (JNum 2), Read, Write (JNum 3), Read, Read]) \<and>
    same_ring
      (snd (run_c (CircularBuffer_c 2)
        [Write (JNum 1), Write (JNum 2), Read, Write (JNum 3), Read, Read]))
      (snd (run_p (CircularBuffer_p 2)
        [Write (JNum 1), Write (JNum 2), Read, Write (JNum 3), Read, Read]))" .
qed

section \<open>LRU cache: recency order, eviction and the capacity bound\<close>

lemma map_delete_absent: "\<not> map_has (map_delete m k) k"
  by (auto simp: map_has_def map_delete_def map_of_eq_None_iff)

lemma map_set_absent: "\<not> map_has m k \<Longrightarrow> map_set m k v = m @ [(k, v)]"
  by (simp add: map_set_def)

lemma map_delete_then_set: "map_set (map_delete m k) k v = map_delete m k @ [(k, v)]"
  by (simp add: map_set_absent map_delete_absent)

lemma map_has_keys: "map_has m k \<longleftrightarrow> k \<in> fst ` set m"
  by (simp add: map_has_def map_of_eq_None_iff)

lemma map_delete_keys: "fst ` set (map_delete m k) = fst ` set m - {k}"
  by (auto simp: map_delete_def)

lemma map_delete_distinct: "distinct (map fst m) \<Longrightarrow> distinct (map fst (map_delete m k))"
  by (simp add: map_delete_def distinct_map_filter)

lemma map_delete_shorter: "map_has m k \<Longrightarrow> length (map_delete m k) < length m"
  unfolding map_has_keys map_delete_def
  by (auto intro: length_filter_less)

lemma map_delete_first:
  "distinct (map fst (e # m)) \<Longrightarrow> map_delete (e # m) (fst e) = m"
proof -
  assume "distinct (map fst (e # m))"
  then have "fst e \<notin> fst ` set m"
    by simp
  then have "\<forall>x\<in>set m. fst x \<noteq> fst e"
    by (metis imageI)
  then have "filter (\<lambda>x. fst x \<noteq> fst e) m = m"
    by (simp add: filter_id_conv)
  then show ?thesis
    by (simp add: map_delete_def)
qed

lemma LRUCache_get_present:
  "map_of (cache c) k = Some v \<Longrightarrow>
   LRUCache_get c k = (v, c\<lparr>cache := filter (\<lambda>e. fst e \<noteq> k) (cache c) @ [(k, v)]\<rparr>)"
  by (simp add: LRUCache_get_def map_has_def map_get_def map_delete_then_set)
     (simp add: map_delete_def)

lemma LRUCache_get_absent:
  "map_of (cache c) k = None \<Longrightarrow> LRUCache_get c k = (JNum (- 1), c)"
  by (simp add: LRUCache_get_def map_has_def)

lemma LRUCache_put_present:
  "map_of (cache c) k = Some v \<Longrightarrow>
   LRUCache_put c k w = c\<lparr>cache := filter (\<lambda>e. fst e \<noteq> k) (cache c) @ [(k, w)]\<rparr>"
  by (simp add: LRUCache_put_def map_has_def map_delete_then_set)
     (simp add: map_delete_def)

lemma LRUCache_put_full:
  assumes d: "distinct (map fst (cache c))" and cap: "1 \<le> capacity c"
    and absent: "map_of (cache c) k = None"
    and full: "capacity c \<le> real_of_int (map_size (cache c))"
  shows "cache c \<noteq> [] \<and> LRUCache_put c k w = c\<lparr>cache := tl (cache c) @ [(k, w)]\<rparr>"
proof -
  from cap full have "1 \<le> real_of_int (map_size (cache c))"
    by linarith
  then have ne: "cache c \<noteq> []"
    by (auto simp: map_size_def)
  then obtain e m where em: "cache c = e # m"
    by (cases "cache c") auto
  from d em have del: "map_delete (cache c) (fst e) = m"
    using map_delete_first [of e m] by simp
  from absent have "k \<notin> fst ` set (cache c)"
    by (simp add: map_of_eq_None_iff)
  with em have "k \<notin> fst ` set m"
    by simp
  then have "\<not> map_has m k"
    by (simp add: map_has_keys)
  then have "map_set m k w = m @ [(k, w)]"
    by (rule map_set_absent)
  with absent full em del have "LRUCache_put c k w = c\<lparr>cache := m @ [(k, w)]\<rparr>"
    by (simp add: LRUCache_put_def map_has_def map_first_key_def)
  with ne em show ?thesis by simp
qed

text \<open>
  C1. In a cache of capacity at least 1 (whose map holds one entry per key, as every
  \<open>Map\<close> does): \<open>get\<close> of a present key returns its value and moves the entry to the
  end of the insertion order, where the most recently used entry is, all others keeping
  their order; \<open>get\<close> of an absent key returns \<open>-1\<close> and the cache as it was;
  \<open>put\<close> on a present key stores the new value at the end of the order and removes no
  other entry; \<open>put\<close> of a new key into a cache that holds \<open>capacity\<close> entries (or
  more) removes the first entry of the order, and only that one, before appending
  the new entry: every other entry is kept with its value.
\<close>

theorem LRUCache_get_put_behaviour:
  assumes "distinct (map fst (cache c))" and "1 \<le> capacity c"
  shows "(map_of (cache c) k = Some v \<longrightarrow>
            LRUCache_get c k = (v, c\<lparr>cache := filter (\<lambda>e. fst e \<noteq> k) (cache c) @ [(k, v)]\<rparr>)) \<and>
         (map_of (cache c) k = None \<longrightarrow> LRUCache_get c k = (JNum (- 1), c)) \<and>
         (map_of (cache c) k = Some v \<longrightarrow>
            LRUCache_put c k w = c\<lparr>cache := filter (\<lambda>e. fst e \<noteq> k) (cache c) @ [(k, w)]\<rparr>) \<and>
         (map_of (cache c) k = None \<and> capacity c \<le> real_of_int (map_size (cache c)) \<longrightarrow>
            cache c \<noteq> [] \<and> LRUCache_put c k w = c\<lparr>cache := tl (cache c) @ [(k, w)]\<rparr>)"
  using assms LRUCache_get_present [of c k v] LRUCache_get_absent [of c k]
    LRUCache_put_present [of c k v w] LRUCache_put_full [of c k w]
  by blast

theorem LRUCache_get_put_witness:
  "distinct (map fst (cache \<lparr>capacity = 2, cache = [(1::nat, JStr ''a''), (2, JStr ''b'')]\<rparr>)) \<and>
   1 \<le> capacity \<lparr>capacity = 2, cache = [(1::nat, JStr ''a''), (2, JStr ''b'')]\<rparr> \<and>
   LRUCache_get \<lparr>capacity = 2, cache = [(1::nat, JStr ''a''), (2, JStr ''b'')]\<rparr> 1 =
     (JStr ''a'', \<lparr>capacity = 2, cache = [(2, JStr ''b''), (1, JStr ''a'')]\<rparr>) \<and>
   LRUCache_get \<lparr>capacity = 2, cache = [(1::nat, JStr ''a''), (2, JStr ''b'')]\<rparr> 3 =
     (JNum (- 1), \<lparr>capacity = 2, cache = [(1, JStr ''a''), (2, JStr ''b'')]\<rparr>) \<and>
   LRUCache_put \<lparr>capacity = 2, cache = [(1::nat, JStr ''a''), (2, JStr ''b'')]\<rparr> 1 (JStr ''z'') =
     \<lparr>capacity = 2, cache = [(2, JStr ''b''), (1, JStr ''z'')]\<rparr> \<and>
   LRUCache_put \<lparr>capacity = 2, cache = [(1::nat, JStr ''a''), (2, JStr ''b'')]\<rparr> 3 (JStr ''z'') =
     \<lparr>capacity = 2, cache = [(2, JStr ''b''), (3, JStr ''z'')]\<rparr>"
proof -
  let ?c = "\<lparr>capacity = 2, cache = [(1::nat, JStr ''a''), (2, JStr ''b'')]\<rparr>"
  have d: "distinct (map fst (cache ?c))" by simp
  have cap: "1 \<le> capacity ?c" by simp
  have present: "map_of (cache ?c) 1 = Some (JStr ''a'')" by simp
  have absent: "map_of (cache ?c) 3 = None \<and> capacity ?c \<le> real_of_int (map_size (cache ?c))"
    by (simp add: map_size_def)
  from LRUCache_get_put_behaviour [OF d cap, of 1 "JStr ''a''" "JStr ''z''"] present
  have hit: "LRUCache_get ?c 1 =
      (JStr ''a'', ?c\<lparr>cache := filter (\<lambda>e. fst e \<noteq> 1) (cache ?c) @ [(1, JStr ''a'')]\<rparr>)"
    and upd: "LRUCache_put ?c 1 (JStr ''z'') =
      ?c\<lparr>cache := filter (\<lambda>e. fst e \<noteq> 1) (cache ?c) @ [(1, JStr ''z'')]\<rparr>"
    by simp_all
  from LRUCache_get_put_behaviour [OF d cap, of 3 "JStr ''a''" "JStr ''z''"] absent
  have miss: "LRUCache_get ?c 3 = (JNum (- 1), ?c)"
    and evict: "LRUCache_put ?c 3 (JStr ''z'') = ?c\<lparr>cache := tl (cache ?c) @ [(3, JStr ''z'')]\<rparr>"
    by simp_all
  from d cap hit miss upd evict show ?thesis by simp
qed

lemma LRUCache_put_room:
  "map_of (cache c) k = None \<Longrightarrow> real_of_int (map_size (cache c)) < capacity c \<Longrightarrow>
   LRUCache_put c k w = c\<lparr>cache := cache c @ [(k, w)]\<rparr>"
  by (simp add: LRUCache_put_def map_has_def map_set_absent)

lemma move_to_end_inv:
  assumes "lru_inv c" and "map_of (cache c) k = Some v"
  shows "lru_inv (c\<lparr>cache := filter (\<lambda>e. fst e \<noteq> k) (cache c) @ [(k, w)]\<rparr>)"
proof -
  from assms(2) have "map_has (cache c) k"
    by (simp add: map_has_def)
  from map_delete_shorter [OF this]
  have "length (filter (\<lambda>e. fst e \<noteq> k) (cache c)) < length (cache c)"
    by (simp add: map_delete_def)
  moreover from assms(1) have "distinct (map fst (filter (\<lambda>e. fst e \<noteq> k) (cache c)))"
    by (simp add: lru_inv_def distinct_map_filter)
  moreover have "k \<notin> fst ` set (filter (\<lambda>e. fst e \<noteq> k) (cache c))"
    by auto
  ultimately show ?thesis
    using assms(1) by (simp add: lru_inv_def map_size_def)
qed

lemma LRUCache_get_inv:
  assumes "lru_inv c"
  shows "lru_inv (snd (LRUCache_get c k)) \<and> capacity (snd (LRUCache_get c k)) = capacity c"
proof (cases "map_of (cache c) k")
  case None
  then show ?thesis
    using assms by (simp add: LRUCache_get_absent)
next
  case (Some v)
  from move_to_end_inv [OF assms Some, of v] show ?thesis
    by (simp add: LRUCache_get_present [OF Some])
qed

lemma LRUCache_put_inv:
  assumes "lru_inv c" and "1 \<le> capacity c"
  shows "lru_inv (LRUCache_put c k w) \<and> capacity (LRUCache_put c k w) = capacity c"
proof (cases "map_of (cache c) k")
  case (Some v)
  from move_to_end_inv [OF assms(1) Some, of w] show ?thesis
    by (simp add: LRUCache_put_present [OF Some])
next
  case None
  then have fresh: "k \<notin> fst ` set (cache c)"
    by (simp add: map_of_eq_None_iff)
  show ?thesis
  proof (cases "capacity c \<le> real_of_int (map_size (cache c))")
    case True
    from assms(1) have d: "distinct (map fst (cache c))"
      by (simp add: lru_inv_def)
    from LRUCache_put_full [OF d assms(2) None True, of w]
    have ne: "cache c \<noteq> []" and eq: "LRUCache_put c k w = c\<lparr>cache := tl (cache c) @ [(k, w)]\<rparr>"
      by simp_all
    from ne obtain e m where em: "cache c = e # m"
      by (cases "cache c") auto
    with assms(1) fresh eq show ?thesis
      by (simp add: lru_inv_def map_size_def)
  next
    case False
    then have room: "real_of_int (map_size (cache c)) < capacity c"
      by simp
    with assms(1) fresh show ?thesis
      by (simp add: LRUCache_put_room [OF None room] lru_inv_def map_size_def)
  qed
qed

lemma run_lru_inv:
  "lru_inv c \<Longrightarrow> 1 \<le> capacity c \<Longrightarrow>
   lru_inv (snd (run_lru c ops)) \<and> capacity (snd (run_lru c ops)) = capacity c"
proof (induction c ops rule: run_lru.induct)
  case (1 c)
  then show ?case by simp
next
  case (2 c k ops)
  from LRUCache_get_inv [OF "2.prems"(1), of k] "2.prems"(2)
  have "lru_inv (snd (LRUCache_get c k))" and "1 \<le> capacity (snd (LRUCache_get c k))"
    and "capacity (snd (LRUCache_get c k)) = capacity c"
    by simp_all
  with "2.IH" [of "fst (LRUCache_get c k)" "snd (LRUCache_get c k)"] show ?case
    by (simp add: split_beta)
next
  case (3 c k v ops)
  from LRUCache_put_inv [OF "3.prems", of k v]
  have "lru_inv (LRUCache_put c k v)" and "1 \<le> capacity (LRUCache_put c k v)"
    and "capacity (LRUCache_put c k v) = capacity c"
    using "3.prems"(2) by simp_all
  with "3.IH" show ?case by simp
qed

text \<open>
  C8, as stated, fails: the capacity need not be whole. A cache constructed with
  capacity 1.5 (which is at least 1) takes two entries, since neither \<open>0 >= 1.5\<close> nor
  \<open>1 >= 1.5\<close> holds when they are put, and 2 is more than 1.5.
\<close>

theorem LRUCache_fractional_capacity:
  "(1::real) \<le> 3 / 2 \<and>
   map_size (cache (snd (run_lru (LRUCache (3 / 2))
     [Put (7::nat) (JStr ''a''), Put 8 (JStr ''b'')]))) = 2 \<and>
   \<not> real_of_int (map_size (cache (snd (run_lru (LRUCache (3 / 2))
     [Put (7::nat) (JStr ''a''), Put 8 (JStr ''b'')])))) \<le> 3 / 2"
  by (simp add: LRUCache_def LRUCache_put_def map_has_def map_size_def map_set_def)

text \<open>
  C8, amended. A cache constructed with a whole capacity of at least 1 never holds more
  entries than its capacity, whatever sequence of \<open>get\<close> and \<open>put\<close> calls it
  receives. With any capacity of at least 1, whole or not, the number of entries stays
  below the capacity plus one. (In both cases the map keeps one entry per key, so the
  length of the entry list is the number of keys.)
\<close>

theorem LRUCache_capacity_bound:
  assumes "1 \<le> cap"
  shows "(cap \<in> \<int> \<longrightarrow> real_of_int (map_size (cache (snd (run_lru (LRUCache cap) ops)))) \<le> cap) \<and>
         real_of_int (map_size (cache (snd (run_lru (LRUCache cap) ops)))) < cap + 1 \<and>
         distinct (map fst (cache (snd (run_lru (LRUCache cap) ops))))"
proof -
  let ?size = "map_size (cache (snd (run_lru (LRUCache cap) ops)))"
  from assms have "lru_inv (LRUCache cap)" and "1 \<le> capacity (LRUCache cap)"
    by (simp_all add: lru_inv_def LRUCache_def map_size_def)
  from run_lru_inv [OF this, of ops]
  have below: "real_of_int ?size < cap + 1"
    and d: "distinct (map fst (cache (snd (run_lru (LRUCache cap) ops))))"
    by (simp_all add: lru_inv_def LRUCache_def)
  have "real_of_int ?size \<le> cap" if "cap \<in> \<int>"
  proof -
    from that obtain n where n: "cap = real_of_int n"
      by (rule Ints_cases)
    with below have "real_of_int ?size < real_of_int (n + 1)"
      by simp
    then have "?size < n + 1"
      by (simp only: of_int_less_iff)
    then have "?size \<le> n"
      by simp
    with n show ?thesis
      by simp
  qed
  with below d show ?thesis
    by blast
qed

theorem LRUCache_capacity_bound_witness:
  "(1::real) \<le> 2 \<and>
   real_of_int (map_size (cache (snd (run_lru (LRUCache 2)
      [Put (7::nat) (JStr ''a''), Put 8 (JStr ''b''), Get 7, Put 9 (JStr ''c''), Get 8])))) \<le> 2 \<and>
   distinct (map fst (cache (snd (run_lru (LRUCache 2)
      [Put (7::nat) (JStr ''a''), Put 8 (JStr ''b''), Get 7, Put 9 (JStr ''c''), Get 8]))))"
proof -
  have cap: "(1::real) \<le> 2" by simp
  have whole: "(2::real) \<in> \<int>" by simp
  from LRUCache_capacity_bound [OF cap,
      of "[Put (7::nat) (JStr ''a''), Put 8 (JStr ''b''), Get 7, Put 9 (JStr ''c''), Get 8]"] whole
  have "real_of_int (map_size (cache (snd (run_lru (LRUCache 2)
      [Put (7::nat) (JStr ''a''), Put 8 (JStr ''b''), Get 7, Put 9 (JStr ''c''), Get 8])))) \<le> 2"
    and "distinct (map fst (cache (snd (run_lru (LRUCache 2)
      [Put (7::nat) (JStr ''a''), Put 8 (JStr ''b''), Get 7, Put 9 (JStr ''c''), Get 8]))))"
    by blast+
  with cap show ?thesis
    by blast
qed

section \<open>assertThrows always returns, with what was thrown\<close>

text \<open>
  C9, as stated, fails in its last part: what \<open>assertThrows\<close> returns need not be
  an \<open>Error\<close>. \<open>throw\<close> accepts any value and \<open>catch\<close> hands it over as it is:
  when \<open>fn\<close> throws \<open>undefined\<close>, \<open>assertThrows\<close> returns \<open>undefined\<close>.
\<close>

theorem assertThrows_returns_undefined:
  "assertThrows (\<lambda>_. Inl JUndefined) = Inr JUndefined \<and> \<not> is_Error JUndefined"
  by (simp add: assertThrows_def assertThrows_try_def is_Error_def)

text \<open>
  C9, amended. \<open>assertThrows\<close> never throws: whatever \<open>fn\<close> does, the call
  returns. When \<open>fn\<close> throws, the value returned is the thrown one, whatever it is;
  when \<open>fn\<close> returns, the value returned is the error \<open>Expected function to throw\<close>,
  which the \<open>try\<close> block raised and the \<open>catch\<close> block of the same function caught.
  So the value returned is an \<open>Error\<close> whenever \<open>fn\<close> returns or throws an
  \<open>Error\<close>.
\<close>

theorem assertThrows_returns_thrown:
  "\<not> isl (assertThrows fn) \<and>
   (fn () = Inl e \<longrightarrow> assertThrows fn = Inr e) \<and>
   (fn () = Inr v \<longrightarrow>
      assertThrows_try fn = Inl (JError ''Expected function to throw'') \<and>
      assertThrows fn = Inr (JError ''Expected function to throw'')) \<and>
   ((case fn () of Inl thrown \<Rightarrow> is_Error thrown | Inr _ \<Rightarrow> True) \<longrightarrow>
      (case assertThrows fn of Inl _ \<Rightarrow> False | Inr returned \<Rightarrow> is_Error returned))"
  by (simp add: assertThrows_def assertThrows_try_def is_Error_def split: sum.splits)

theorem assertThrows_returns_thrown_witness:
  "assertThrows (\<lambda>_. Inl (JError ''boom'')) = Inr (JError ''boom'') \<and>
   assertThrows (\<lambda>_. Inr (JNum 1)) = Inr (JError ''Expected function to throw'') \<and>
   is_Error (JError ''boom'') \<and>
   (case assertThrows (\<lambda>_. Inl (JError ''boom'')) of Inl _ \<Rightarrow> False | Inr returned \<Rightarrow> is_Error returned)"
proof -
  have e: "is_Error (JError ''boom'')"
    by (simp add: is_Error_def)
  from assertThrows_returns_thrown [of "\<lambda>_. Inl (JError ''boom'')" "JError ''boom''" JUndefined] e
  have 1: "assertThrows (\<lambda>_. Inl (JError ''boom'')) = Inr (JError ''boom'')"
    and 2: "case assertThrows (\<lambda>_. Inl (JError ''boom'')) of Inl _ \<Rightarrow> False | Inr returned \<Rightarrow> is_Error returned"
    by simp_all
  from assertThrows_returns_thrown [of "\<lambda>_. Inr (JNum 1)" JUndefined "JNum 1"]
  have 3: "assertThrows (\<lambda>_. Inr (JNum 1)) = Inr (JError ''Expected function to throw'')"
    by simp
  from 1 2 3 e show ?thesis
    by blast
qed

section \<open>Circuit breaker: open, half-open and failing calls\<close>

text \<open>
  C5. While the failure count has reached the threshold and fewer than 60000 ms have
  passed since the last failure, a call throws \<open>Circuit breaker open\<close>, does not
  invoke the operation and changes nothing. Once 60000 ms or more have passed, the
  counter is reset to 0 and the operation is invoked with the call's arguments: after
  a success the counter is 0, after a failure it is 1. Whenever the operation is
  invoked and throws, the counter goes up by one (from its value at the invocation),
  the time of the failure is recorded and the operation's error is thrown on.
\<close>

theorem circuitBreaker_behaviour:
  "(threshold \<le> failures s \<and> now - to_number (lastFailure s) < 60000 \<longrightarrow>
      breaker_call operation threshold s now failedAt args =
        (Inl (JError ''Circuit breaker open''), s, [])) \<and>
   (threshold \<le> failures s \<and> 60000 \<le> now - to_number (lastFailure s) \<and> operation args = Inr v \<longrightarrow>
      breaker_call operation threshold s now failedAt args =
        (Inr v, s\<lparr>failures := 0\<rparr>, [args])) \<and>
   (threshold \<le> failures s \<and> 60000 \<le> now - to_number (lastFailure s) \<and> operation args = Inl e \<longrightarrow>
      breaker_call operation threshold s now failedAt args =
        (Inl e, s\<lparr>failures := 1, lastFailure := Some failedAt\<rparr>, [args])) \<and>
   (failures s < threshold \<and> operation args = Inl e \<longrightarrow>
      breaker_call operation threshold s now failedAt args =
        (Inl e, s\<lparr>failures := failures s + 1, lastFailure := Some failedAt\<rparr>, [args]))"
  by (simp add: breaker_call_def)

theorem circuitBreaker_behaviour_witness:
  "breaker_call (\<lambda>x::nat. Inl (JStr ''down'')) 5 \<lparr>failures = 5, lastFailure = Some 1000\<rparr> 60999 61005 7 =
     (Inl (JError ''Circuit breaker open''), \<lparr>failures = 5, lastFailure = Some 1000\<rparr>, []) \<and>
   breaker_call (\<lambda>x::nat. Inr (JNum 1)) 5 \<lparr>failures = 5, lastFailure = Some 1000\<rparr> 61000 61005 7 =
     (Inr (JNum 1), \<lparr>failures = 0, lastFailure = Some 1000\<rparr>, [7]) \<and>
   breaker_call (\<lambda>x::nat. Inl (JStr ''down'')) 5 \<lparr>failures = 5, lastFailure = Some 1000\<rparr> 61000 61005 7 =
     (Inl (JStr ''down''), \<lparr>failures = 1, lastFailure = Some 61005\<rparr>, [7]) \<and>
   breaker_call (\<lambda>x::nat. Inl (JStr ''down'')) 5 \<lparr>failures = 4, lastFailure = Some 1000\<rparr> 2000 2005 7 =
     (Inl (JStr ''down''), \<lparr>failures = 5, lastFailure = Some 2005\<rparr>, [7])"
  using circuitBreaker_behaviour [where threshold = 5
      and s = "\<lparr>failures = 5, lastFailure = Some 1000\<rparr>" and now = 60999
      and operation = "\<lambda>x::nat. Inl (JStr ''down'')" and failedAt = 61005 and args = 7
      and v = JUndefined and e = "JStr ''down''"]
    circuitBreaker_behaviour [where threshold = 5
      and s = "\<lparr>failures = 5, lastFailure = Some 1000\<rparr>" and now = 61000
      and operation = "\<lambda>x::nat. Inr (JNum 1)" and failedAt = 61005 and args = 7
      and v = "JNum 1" and e = JUndefined]
    circuitBreaker_behaviour [where threshold = 5
      and s = "\<lparr>failures = 5, lastFailure = Some 1000\<rparr>" and now = 61000
      and operation = "\<lambda>x::nat. Inl (JStr ''down'')" and failedAt = 61005 and args = 7
      and v = JUndefined and e = "JStr ''down''"]
    circuitBreaker_behaviour [where threshold = 5
      and s = "\<lparr>failures = 4, lastFailure = Some 1000\<rparr>" and now = 2000
      and operation = "\<lambda>x::nat. Inl (JStr ''down'')" and failedAt = 2005 and args = 7
      and v = JUndefined and e = "JStr ''down''"]
  by (simp add: to_number_def)

section \<open>Retry: bounded attempts, first success, fixed delay, last error\<close>

declare retry_from.simps [simp del]
declare RetryMechanism_retry_from.simps [simp del]

lemma retry_trace_Suc: "retry_trace (Suc k) delay = Invoke # Wait delay # retry_trace k delay"
  by (simp add: retry_trace_def)

lemma of_int_eq_pred: "real_of_int i = real_of_int n - 1 \<longleftrightarrow> i = n - 1"
proof -
  have "real_of_int n - 1 = real_of_int (n - 1)"
    by simp
  then show ?thesis
    by (simp only: of_int_eq_iff)
qed

lemma retry_from_success:
  "0 \<le> i \<Longrightarrow> i \<le> k \<Longrightarrow> k < n \<Longrightarrow>
   (\<forall>j. i \<le> j \<and> j < k \<longrightarrow> isl (fn (nat j))) \<Longrightarrow> fn (nat k) = Inr v \<Longrightarrow>
   retry_from fn (real_of_int n) delay i = (Inr v, retry_trace (nat (k - i)) delay)"
proof (induction "nat (k - i)" arbitrary: i)
  case 0
  then have "i = k" by simp
  with 0 show ?case
    by (subst retry_from.simps) (simp add: retry_trace_def)
next
  case (Suc m)
  then have lt: "i < k" by linarith
  with Suc.prems have "isl (fn (nat i))" by simp
  then obtain e where e: "fn (nat i) = Inl e"
    by (cases "fn (nat i)") auto
  have m: "m = nat (k - (i + 1))"
    using Suc.hyps(2) by linarith
  have rest: "retry_from fn (real_of_int n) delay (i + 1) =
      (Inr v, retry_trace (nat (k - (i + 1))) delay)"
    using Suc.hyps(1) [OF m] Suc.prems lt by simp
  have k: "nat (k - i) = Suc (nat (k - (i + 1)))"
    using lt by linarith
  from lt Suc.prems have cond: "i < n" and last: "i \<noteq> n - 1"
    by linarith+
  from cond last e rest show ?case
    by (subst retry_from.simps) (simp add: k retry_trace_Suc of_int_eq_pred)
qed

lemma retry_from_all_fail:
  "0 \<le> i \<Longrightarrow> i < n \<Longrightarrow>
   (\<forall>j. i \<le> j \<and> j < n \<longrightarrow> isl (fn (nat j))) \<Longrightarrow>
   retry_from fn (real_of_int n) delay i =
     (fn (nat (n - 1)), retry_trace (nat (n - 1 - i)) delay)"
proof (induction "nat (n - 1 - i)" arbitrary: i)
  case 0
  then have i: "i = n - 1" by linarith
  from 0 have "isl (fn (nat i))" by simp
  then obtain e where e: "fn (nat i) = Inl e"
    by (cases "fn (nat i)") auto
  from 0 have cond: "i < n" by simp
  from cond i e show ?case
    by (subst retry_from.simps) (simp add: retry_trace_def of_int_eq_pred)
next
  case (Suc m)
  then have lt: "i < n - 1" by linarith
  from Suc.prems have "isl (fn (nat i))" by simp
  then obtain e where e: "fn (nat i) = Inl e"
    by (cases "fn (nat i)") auto
  have m: "m = nat (n - 1 - (i + 1))"
    using Suc.hyps(2) by linarith
  have rest: "retry_from fn (real_of_int n) delay (i + 1) =
      (fn (nat (n - 1)), retry_trace (nat (n - 1 - (i + 1))) delay)"
    using Suc.hyps(1) [OF m] Suc.prems lt by simp
  have k: "nat (n - 1 - i) = Suc (nat (n - 1 - (i + 1)))"
    using lt by linarith
  from lt have cond: "i < n" and last: "i \<noteq> n - 1"
    by linarith+
  from cond last e rest show ?case
    by (subst retry_from.simps) (simp add: k retry_trace_Suc of_int_eq_pred)
qed

lemma retry_from_invocations:
  "int (invocations (snd (retry_from fn attempts delay i))) \<le> max 0 (\<lceil>attempts\<rceil> - i)"
proof (induction fn attempts delay i rule: retry_from.induct)
  case (1 fn attempts delay i)
  show ?case
  proof (cases "real_of_int i < attempts")
    case False
    then show ?thesis
      by (subst retry_from.simps) (simp add: invocations_def)
  next
    case True
    then have below: "i < \<lceil>attempts\<rceil>"
      by (simp add: less_ceiling_iff)
    show ?thesis
    proof (cases "fn (nat i)")
      case (Inr v)
      with True below show ?thesis
        by (subst retry_from.simps) (simp add: invocations_def)
    next
      case (Inl e)
      show ?thesis
      proof (cases "real_of_int i = attempts - 1")
        case last: True
        with True Inl below show ?thesis
          by (subst retry_from.simps) (simp add: invocations_def)
      next
        case False
        from "1.IH" [OF True Inl False]
        have "int (invocations (snd (retry_from fn attempts delay (i + 1))))
            \<le> max 0 (\<lceil>attempts\<rceil> - (i + 1))" .
        with True Inl False below show ?thesis
          by (subst retry_from.simps) (simp add: invocations_def split_beta)
      qed
    qed
  qed
qed

lemma RetryMechanism_retry_from_success:
  "1 \<le> a \<Longrightarrow> a - 1 \<le> k \<Longrightarrow> k < n \<Longrightarrow>
   (\<forall>j. a - 1 \<le> j \<and> j < k \<longrightarrow> isl (operation (nat j))) \<Longrightarrow> operation (nat k) = Inr v \<Longrightarrow>
   RetryMechanism_retry_from operation (real_of_int n) delay a =
     (Inr v,
      concat (map (\<lambda>j. [Invoke, Wait delay, Warn (int j + 1) (real_of_int n)]) [nat (a - 1)..<nat k])
        @ [Invoke])"
proof (induction "nat (k - (a - 1))" arbitrary: a)
  case 0
  then have "a - 1 = k" by simp
  with 0 have cond: "a \<le> n" and ok: "operation (nat (a - 1)) = Inr v"
    by simp_all
  from cond ok \<open>a - 1 = k\<close> show ?case
    by (subst RetryMechanism_retry_from.simps) simp
next
  case (Suc m)
  then have lt: "a - 1 < k" by linarith
  with Suc.prems have "isl (operation (nat (a - 1)))" by simp
  then obtain e where e: "operation (nat (a - 1)) = Inl e"
    by (cases "operation (nat (a - 1))") auto
  have m: "m = nat (k - (a + 1 - 1))"
    using Suc.hyps(2) by linarith
  have rest: "RetryMechanism_retry_from operation (real_of_int n) delay (a + 1) =
      (Inr v,
       concat (map (\<lambda>j. [Invoke, Wait delay, Warn (int j + 1) (real_of_int n)]) [nat (a + 1 - 1)..<nat k])
         @ [Invoke])"
    using Suc.hyps(1) [OF m] Suc.prems lt by simp
  have "nat (a - 1) < nat k"
    using lt Suc.prems(1) by linarith
  then have upt: "[nat (a - 1)..<nat k] = nat (a - 1) # [nat (a + 1 - 1)..<nat k]"
    using Suc.prems(1) by (simp add: upt_conv_Cons nat_add_distrib Suc_nat_eq_nat_zadd1)
  from lt Suc.prems have cond: "a \<le> n" and last: "a \<noteq> n"
    by linarith+
  from cond last Suc.prems(1) e rest show ?case
    by (subst RetryMechanism_retry_from.simps) (simp add: upt)
qed

lemma RetryMechanism_retry_from_all_fail:
  "1 \<le> a \<Longrightarrow> a \<le> n \<Longrightarrow>
   (\<forall>j. a - 1 \<le> j \<and> j < n \<longrightarrow> isl (operation (nat j))) \<Longrightarrow>
   RetryMechanism_retry_from operation (real_of_int n) delay a =
     (operation (nat (n - 1)),
      concat (map (\<lambda>j. [Invoke, Wait delay, Warn (int j + 1) (real_of_int n)]) [nat (a - 1)..<nat (n - 1)])
        @ [Invoke])"
proof (induction "nat (n - a)" arbitrary: a)
  case 0
  then have a: "a = n" by linarith
  from 0 have "isl (operation (nat (a - 1)))" by simp
  then obtain e where e: "operation (nat (a - 1)) = Inl e"
    by (cases "operation (nat (a - 1))") auto
  from a e show ?case
    by (subst RetryMechanism_retry_from.simps) simp
next
  case (Suc m)
  then have lt: "a < n" by linarith
  from Suc.prems have "isl (operation (nat (a - 1)))" by simp
  then obtain e where e: "operation (nat (a - 1)) = Inl e"
    by (cases "operation (nat (a - 1))") auto
  have m: "m = nat (n - (a + 1))"
    using Suc.hyps(2) by linarith
  have rest: "RetryMechanism_retry_from operation (real_of_int n) delay (a + 1) =
      (operation (nat (n - 1)),
       concat (map (\<lambda>j. [Invoke, Wait delay, Warn (int j + 1) (real_of_int n)]) [nat (a + 1 - 1)..<nat (n - 1)])
         @ [Invoke])"
    using Suc.hyps(1) [OF m] Suc.prems lt by simp
  have "nat (a - 1) < nat (n - 1)"
    using lt Suc.prems(1) by linarith
  then have upt: "[nat (a - 1)..<nat (n - 1)] = nat (a - 1) # [nat (a + 1 - 1)..<nat (n - 1)]"
    using Suc.prems(1) by (simp add: upt_conv_Cons nat_add_distrib Suc_nat_eq_nat_zadd1)
  from lt have cond: "a \<le> n" and last: "a \<noteq> n"
    by linarith+
  from cond last Suc.prems(1) e rest show ?case
    by (subst RetryMechanism_retry_from.simps) (simp add: upt)
qed

lemma RetryMechanism_retry_from_invocations:
  "int (invocations (snd (RetryMechanism_retry_from operation m delay a))) \<le> max 0 (\<lfloor>m\<rfloor> + 1 - a)"
proof (induction operation m delay a rule: RetryMechanism_retry_from.induct)
  case (1 operation m delay a)
  show ?case
  proof (cases "real_of_int a \<le> m")
    case False
    then show ?thesis
      by (subst RetryMechanism_retry_from.simps) (simp add: invocations_def)
  next
    case True
    then have below: "a \<le> \<lfloor>m\<rfloor>"
      by (simp add: le_floor_iff)
    show ?thesis
    proof (cases "operation (nat (a - 1))")
      case (Inr v)
      with True below show ?thesis
        by (subst RetryMechanism_retry_from.simps) (simp add: invocations_def)
    next
      case (Inl e)
      show ?thesis
      proof (cases "real_of_int a = m")
        case last: True
        with True Inl below show ?thesis
          by (subst RetryMechanism_retry_from.simps) (simp add: invocations_def)
      next
        case False
        from "1.IH" [OF True Inl False]
        have "int (invocations (snd (RetryMechanism_retry_from operation m delay (a + 1))))
            \<le> max 0 (\<lfloor>m\<rfloor> + 1 - (a + 1))" .
        with True Inl False below show ?thesis
          by (subst RetryMechanism_retry_from.simps) (simp add: invocations_def split_beta)
      qed
    qed
  qed
qed

lemma retry_success:
  assumes "k < nat n" and "\<forall>j<k. isl (fn j)" and "fn k = Inr v"
  shows "retry fn (real_of_int n) delay = (Inr v, retry_trace k delay)"
    and "RetryMechanism_retry fn (real_of_int n) delay =
           (Inr v, RetryMechanism_trace k (real_of_int n) delay)"
proof -
  from assms(1) have lt: "int k < n" by linarith
  from assms(2) have fails: "\<forall>j. 0 \<le> j \<and> j < int k \<longrightarrow> isl (fn (nat j))"
    by (metis nat_less_iff)
  from assms(3) have ok: "fn (nat (int k)) = Inr v" by simp
  from retry_from_success [of 0 "int k" n fn v delay] lt fails ok
  show "retry fn (real_of_int n) delay = (Inr v, retry_trace k delay)"
    by (simp add: retry_def)
  from fails have fails1: "\<forall>j. 1 - 1 \<le> j \<and> j < int k \<longrightarrow> isl (fn (nat j))" by simp
  from RetryMechanism_retry_from_success [of 1 "int k" n fn v delay, OF _ _ lt fails1 ok]
  show "RetryMechanism_retry fn (real_of_int n) delay =
          (Inr v, RetryMechanism_trace k (real_of_int n) delay)"
    by (simp add: RetryMechanism_retry_def RetryMechanism_trace_def)
qed

lemma retry_exhausted:
  assumes "1 \<le> n" and "\<forall>j<nat n. fn j = Inl (err j)"
  shows "retry fn (real_of_int n) delay =
           (Inl (err (nat n - 1)), retry_trace (nat n - 1) delay)"
    and "RetryMechanism_retry fn (real_of_int n) delay =
           (Inl (err (nat n - 1)), RetryMechanism_trace (nat n - 1) (real_of_int n) delay)"
proof -
  have fails: "\<forall>j. 0 \<le> j \<and> j < n \<longrightarrow> isl (fn (nat j))"
  proof (intro allI impI)
    fix j :: int
    assume "0 \<le> j \<and> j < n"
    then have "nat j < nat n" by linarith
    with assms(2) have "fn (nat j) = Inl (err (nat j))" by simp
    then show "isl (fn (nat j))" by simp
  qed
  from assms have last: "fn (nat (n - 1)) = Inl (err (nat n - 1))"
    by (simp add: nat_diff_distrib)
  have idx: "nat (n - 1) = nat n - 1"
    by (simp add: nat_diff_distrib)
  from retry_from_all_fail [of 0 n fn delay] assms(1) fails last
  show "retry fn (real_of_int n) delay =
          (Inl (err (nat n - 1)), retry_trace (nat n - 1) delay)"
    by (simp add: retry_def idx)
  from fails have fails1: "\<forall>j. 1 - 1 \<le> j \<and> j < n \<longrightarrow> isl (fn (nat j))" by simp
  from RetryMechanism_retry_from_all_fail [of 1 n fn delay, OF _ assms(1) fails1] last
  show "RetryMechanism_retry fn (real_of_int n) delay =
          (Inl (err (nat n - 1)), RetryMechanism_trace (nat n - 1) (real_of_int n) delay)"
    by (simp add: RetryMechanism_retry_def RetryMechanism_trace_def idx)
qed

text \<open>
  C6, as stated, fails: the number of attempts need not be whole. With
  \<open>attempts = 2.5\<close> (which is at least 1) and an operation that always fails, \<open>retry\<close>
  invokes it 3 times, more than \<open>attempts\<close>; and since neither \<open>i === attempts - 1\<close>
  nor \<open>attempt === maxAttempts\<close> ever holds, both helpers wait after the last failure
  too, leave the loop and return \<open>undefined\<close> instead of throwing the last error.
\<close>

theorem retry_fractional_attempts:
  "(1::real) \<le> 5 / 2 \<and>
   retry (\<lambda>n. Inl (JNum (int n))) (5 / 2) 1000 =
     (Inr JUndefined, [Invoke, Wait 1000, Invoke, Wait 1000, Invoke, Wait 1000]) \<and>
   RetryMechanism_retry (\<lambda>n. Inl (JNum (int n))) (5 / 2) 1000 =
     (Inr JUndefined, [Invoke, Wait 1000, Warn 1 (5 / 2), Invoke, Wait 1000, Warn 2 (5 / 2)])"
  by (simp add: retry_def RetryMechanism_retry_def retry_from.simps RetryMechanism_retry_from.simps)

text \<open>
  C6, amended. With a whole number of attempts, at least 1, each retry helper invokes
  the operation at most \<open>attempts\<close> times. If the call after \<open>k\<close> failures
  (\<open>k < attempts\<close>) is the first to succeed, the helper returns its result, and its
  events are \<open>k\<close> rounds of an invocation followed by a wait of \<open>delay\<close> (the same
  value every time), then the successful invocation and nothing after it. If all
  \<open>attempts\<close> calls fail, the helper throws the error of the last one, after waiting
  \<open>delay\<close> between consecutive attempts and not after the last.
\<close>

theorem retry_helpers_behaviour:
  assumes "1 \<le> n"
  shows "int (invocations (snd (retry fn (real_of_int n) delay))) \<le> n \<and>
         int (invocations (snd (RetryMechanism_retry fn (real_of_int n) delay))) \<le> n \<and>
         (k < nat n \<and> (\<forall>j<k. isl (fn j)) \<and> fn k = Inr v \<longrightarrow>
            retry fn (real_of_int n) delay = (Inr v, retry_trace k delay) \<and>
            RetryMechanism_retry fn (real_of_int n) delay =
              (Inr v, RetryMechanism_trace k (real_of_int n) delay)) \<and>
         ((\<forall>j<nat n. fn j = Inl (err j)) \<longrightarrow>
            retry fn (real_of_int n) delay =
              (Inl (err (nat n - 1)), retry_trace (nat n - 1) delay) \<and>
            RetryMechanism_retry fn (real_of_int n) delay =
              (Inl (err (nat n - 1)), RetryMechanism_trace (nat n - 1) (real_of_int n) delay))"
proof -
  from retry_from_invocations [of fn "real_of_int n" delay 0] assms
  have a: "int (invocations (snd (retry fn (real_of_int n) delay))) \<le> n"
    by (simp add: retry_def)
  from RetryMechanism_retry_from_invocations [of fn "real_of_int n" delay 1] assms
  have b: "int (invocations (snd (RetryMechanism_retry fn (real_of_int n) delay))) \<le> n"
    by (simp add: RetryMechanism_retry_def)
  from a b retry_success [of k n fn v delay] retry_exhausted [OF assms, of fn err delay]
  show ?thesis by blast
qed

theorem retry_helpers_witness:
  "retry (\<lambda>n. if n < 2 then Inl (JStr ''busy'') else Inr (JNum 9)) 3 1000 =
     (Inr (JNum 9), [Invoke, Wait 1000, Invoke, Wait 1000, Invoke]) \<and>
   RetryMechanism_retry (\<lambda>n. if n < 2 then Inl (JStr ''busy'') else Inr (JNum 9)) 3 1000 =
     (Inr (JNum 9), [Invoke, Wait 1000, Warn 1 3, Invoke, Wait 1000, Warn 2 3, Invoke]) \<and>
   retry (\<lambda>n. Inl (JNum (int n))) 3 1000 =
     (Inl (JNum 2), [Invoke, Wait 1000, Invoke, Wait 1000, Invoke]) \<and>
   RetryMechanism_retry (\<lambda>n. Inl (JNum (int n))) 3 1000 =
     (Inl (JNum 2), [Invoke, Wait 1000, Warn 1 3, Invoke, Wait 1000, Warn 2 3, Invoke])"
proof -
  let ?f = "\<lambda>n::nat. if n < 2 then Inl (JStr ''busy'') else (Inr (JNum 9) :: jsval completion)"
  let ?g = "\<lambda>n::nat. (Inl (JNum (int n)) :: jsval completion)"
  have three: "(1::int) \<le> 3" by simp
  have ok: "(2::nat) < nat 3 \<and> (\<forall>j<2. isl (?f j)) \<and> ?f 2 = Inr (JNum 9)" by simp
  have bad: "\<forall>j<nat 3. ?g j = Inl (JNum (int j))" by simp
  have t2: "retry_trace 2 1000 = [Invoke, Wait 1000, Invoke, Wait 1000, Invoke]"
    by (simp add: retry_trace_def numeral_2_eq_2)
  have u2: "RetryMechanism_trace 2 3 1000 =
      [Invoke, Wait 1000, Warn 1 3, Invoke, Wait 1000, Warn 2 3, Invoke]"
    by (simp add: RetryMechanism_trace_def numeral_2_eq_2)
  have n2: "nat 3 - 1 = (2::nat)" by simp
  have r3: "real_of_int 3 = 3" by simp
  from retry_helpers_behaviour [OF three, of ?f 1000 2 "JNum 9" "\<lambda>_. JUndefined"] ok
  have s: "retry ?f (real_of_int 3) 1000 = (Inr (JNum 9), retry_trace 2 1000) \<and>
           RetryMechanism_retry ?f (real_of_int 3) 1000 =
             (Inr (JNum 9), RetryMechanism_trace 2 (real_of_int 3) 1000)"
    by blast
  from retry_helpers_behaviour [OF three, of ?g 1000 0 JUndefined "\<lambda>j. JNum (int j)"] bad
  have f: "retry ?g (real_of_int 3) 1000 =
             (Inl (JNum (int (nat 3 - 1))), retry_trace (nat 3 - 1) 1000) \<and>
           RetryMechanism_retry ?g (real_of_int 3) 1000 =
             (Inl (JNum (int (nat 3 - 1))), RetryMechanism_trace (nat 3 - 1) (real_of_int 3) 1000)"
    by blast
  from s f show ?thesis
    by (simp add: t2 u2 n2)
qed

section \<open>Event emitters: which callbacks an emit calls\<close>

lemma forEach_call_reached:
  "forEach_call bh cbs d = (map (\<lambda>cb. (cb, d)) (reached bh cbs d), thrown_by bh cbs d)"
  by (induction cbs) (auto simp: reached_def thrown_by_def split: option.splits)

lemma reached_all:
  "\<forall>cb\<in>set cbs. bh cb d = None \<Longrightarrow> reached bh cbs d = cbs \<and> thrown_by bh cbs d = None"
  by (induction cbs) (auto simp: reached_def thrown_by_def)

lemma EventEmitter_on_eq:
  "EventEmitter_on m e cb = m(e \<mapsto> slot m e @ [cb])"
  by (simp add: EventEmitter_on_def slot_def Let_def split: option.splits)

lemma MemoryEfficientEmitter_on_eq:
  "MemoryEfficientEmitter_on m e cb = m(e \<mapsto> set_add (slot m e) cb)"
  by (simp add: MemoryEfficientEmitter_on_def slot_def Let_def split: option.splits)

lemma EventSystem_on_eq:
  "EventSystem_on m e cb opts = m(e \<mapsto> slot m e @ [\<lparr>callback = cb, options = opts\<rparr>])"
  by (simp add: EventSystem_on_def slot_def Let_def split: option.splits)

lemma EventEmitter_fold:
  "slot (foldl (\<lambda>m r. EventEmitter_on m (fst r) (snd r)) m regs) e = slot m e @ registered regs e \<and>
   (foldl (\<lambda>m r. EventEmitter_on m (fst r) (snd r)) m regs e = None \<longleftrightarrow>
      m e = None \<and> registered regs e = [])"
proof (induction regs arbitrary: m)
  case Nil
  then show ?case by (simp add: registered_def)
next
  case (Cons r regs)
  show ?case
    using Cons.IH [of "EventEmitter_on m (fst r) (snd r)"]
    by (auto simp: EventEmitter_on_eq registered_def slot_def)
qed

lemma foldl_set_add: "foldl set_add [] xs = first_occurrences xs"
proof (induction xs rule: rev_induct)
  case Nil
  then show ?case by (simp add: first_occurrences_def)
next
  case (snoc x xs)
  have "set (first_occurrences xs) = set xs"
    by (simp add: first_occurrences_def)
  with snoc show ?case
    by (simp add: set_add_def first_occurrences_def)
qed

lemma foldl_set_add_start:
  "foldl set_add (foldl set_add s xs) ys = foldl set_add s (xs @ ys)"
  by simp

lemma MemoryEfficientEmitter_fold:
  "slot (foldl (\<lambda>m r. MemoryEfficientEmitter_on m (fst r) (snd r)) m regs) e =
     foldl set_add (slot m e) (registered regs e) \<and>
   (foldl (\<lambda>m r. MemoryEfficientEmitter_on m (fst r) (snd r)) m regs e = None \<longleftrightarrow>
      m e = None \<and> registered regs e = [])"
proof (induction regs arbitrary: m)
  case Nil
  then show ?case by (simp add: registered_def)
next
  case (Cons r regs)
  show ?case
    using Cons.IH [of "MemoryEfficientEmitter_on m (fst r) (snd r)"]
    by (auto simp: MemoryEfficientEmitter_on_eq registered_def slot_def)
qed

lemma EventSystem_on_slot:
  "slot (EventSystem_on m e' cb opts) e =
     (if e' = e then slot m e @ [\<lparr>callback = cb, options = opts\<rparr>] else slot m e)"
  by (simp add: EventSystem_on_eq slot_def)

lemma EventSystem_on_none:
  "EventSystem_on m e' cb opts e = None \<longleftrightarrow> e' \<noteq> e \<and> m e = None"
  by (simp add: EventSystem_on_eq)

lemma EventSystem_fold_callbacks:
  "map callback (slot (foldl (\<lambda>m r. EventSystem_on m (fst r) (snd r) default_options) m regs) e) =
     map callback (slot m e) @ registered regs e"
proof (induction regs arbitrary: m)
  case Nil
  then show ?case by (simp add: registered_def)
next
  case (Cons r regs)
  show ?case
    using Cons.IH [of "EventSystem_on m (fst r) (snd r) default_options"]
    by (simp add: EventSystem_on_slot registered_def)
qed

lemma EventSystem_fold_plain:
  "\<forall>l\<in>set (slot m e). \<not> once (options l) \<Longrightarrow>
   \<forall>l\<in>set (slot (foldl (\<lambda>m r. EventSystem_on m (fst r) (snd r) default_options) m regs) e).
     \<not> once (options l)"
proof (induction regs arbitrary: m)
  case Nil
  then show ?case by simp
next
  case (Cons r regs)
  from Cons.prems
  have "\<forall>l\<in>set (slot (EventSystem_on m (fst r) (snd r) default_options) e). \<not> once (options l)"
    by (simp add: EventSystem_on_slot default_options_def)
  from Cons.IH [OF this] show ?case by simp
qed

lemma EventSystem_fold_none:
  "foldl (\<lambda>m r. EventSystem_on m (fst r) (snd r) default_options) m regs e = None \<longleftrightarrow>
     m e = None \<and> registered regs e = []"
proof (induction regs arbitrary: m)
  case Nil
  then show ?case by (simp add: registered_def)
next
  case (Cons r regs)
  show ?case
    using Cons.IH [of "EventSystem_on m (fst r) (snd r) default_options"]
    by (auto simp: EventSystem_on_none registered_def)
qed

lemma EventSystem_dispatch_plain:
  "\<forall>l\<in>set todo. \<not> once (options l) \<Longrightarrow>
   EventSystem_dispatch bh d kept todo = (forEach_call bh (map callback todo) d, kept @ todo)"
  by (induction todo arbitrary: kept) (simp_all add: split_beta split: option.splits)

lemma first_occurrences_distinct: "distinct xs \<Longrightarrow> first_occurrences xs = xs"
  by (simp add: first_occurrences_def distinct_remdups_id)

lemma EventEmitter_emit_registered:
  "EventEmitter_emit bh (EventEmitter_register regs) e d =
     (forEach_call bh (registered regs e) d, EventEmitter_register regs)"
proof -
  let ?m = "EventEmitter_register regs"
  from EventEmitter_fold [of Map.empty regs e]
  have s: "slot ?m e = registered regs e" and n: "?m e = None \<longleftrightarrow> registered regs e = []"
    by (simp_all add: EventEmitter_register_def EventEmitter_def slot_def)
  show ?thesis
  proof (cases "?m e")
    case None
    with n show ?thesis by (simp add: EventEmitter_emit_def)
  next
    case (Some cbs)
    with s show ?thesis by (simp add: EventEmitter_emit_def slot_def)
  qed
qed

lemma MemoryEfficientEmitter_emit_registered:
  "MemoryEfficientEmitter_emit bh (MemoryEfficientEmitter_register regs) e d =
     (forEach_call bh (first_occurrences (registered regs e)) d, MemoryEfficientEmitter_register regs)"
proof -
  let ?m = "MemoryEfficientEmitter_register regs"
  from MemoryEfficientEmitter_fold [of Map.empty regs e]
  have s: "slot ?m e = first_occurrences (registered regs e)"
    and n: "?m e = None \<longleftrightarrow> registered regs e = []"
    by (simp_all add: MemoryEfficientEmitter_register_def MemoryEfficientEmitter_def slot_def
        foldl_set_add)
  show ?thesis
  proof (cases "?m e")
    case None
    with n show ?thesis
      by (simp add: MemoryEfficientEmitter_emit_def first_occurrences_def)
  next
    case (Some cbs)
    with s show ?thesis by (simp add: MemoryEfficientEmitter_emit_def slot_def)
  qed
qed

lemma EventSystem_emit_registered:
  "EventSystem_emit bh (EventSystem_register regs) e d =
     (forEach_call bh (registered regs e) d, EventSystem_register regs)"
proof -
  let ?m = "EventSystem_register regs"
  from EventSystem_fold_callbacks [of Map.empty regs e]
  have s: "map callback (slot ?m e) = registered regs e"
    by (simp add: EventSystem_register_def EventSystem_def slot_def)
  from EventSystem_fold_plain [of Map.empty e regs]
  have p: "\<forall>l\<in>set (slot ?m e). \<not> once (options l)"
    by (simp add: EventSystem_register_def EventSystem_def slot_def)
  from EventSystem_fold_none [of Map.empty regs e]
  have n: "?m e = None \<longleftrightarrow> registered regs e = []"
    by (simp add: EventSystem_register_def EventSystem_def)
  show ?thesis
  proof (cases "?m e")
    case None
    with n show ?thesis by (simp add: EventSystem_emit_def)
  next
    case (Some ls)
    with s p have cb: "map callback ls = registered regs e"
      and plain: "\<forall>l\<in>set ls. \<not> once (options l)"
      by (simp_all add: slot_def)
    from Some have same: "?m(e \<mapsto> ls) = ?m"
      by (rule map_upd_triv)
    from Some show ?thesis
      by (simp add: EventSystem_emit_def EventSystem_dispatch_plain [OF plain] cb same)
  qed
qed

text \<open>
  C2, as stated, fails on duplicates and on throwing callbacks. With one callback
  (number 1) registered twice for \<open>click\<close>, \<open>EventEmitter\<close> calls it twice in one
  \<open>emit\<close> and \<open>MemoryEfficientEmitter\<close> calls it once for its two registrations, so
  "each once per emit" fits at most one of them, however it is read. And when the
  first of two callbacks throws, the second is not called and \<open>emit\<close> throws.
\<close>

theorem emitters_duplicates_and_throws:
  "fst (EventEmitter_emit (\<lambda>cb d. None)
          (EventEmitter_register [(''click'', 1::nat), (''click'', 1)]) ''click'' (JNum 5)) =
     ([(1, JNum 5), (1, JNum 5)], None) \<and>
   fst (MemoryEfficientEmitter_emit (\<lambda>cb d. None)
          (MemoryEfficientEmitter_register [(''click'', 1::nat), (''click'', 1)]) ''click'' (JNum 5)) =
     ([(1, JNum 5)], None) \<and>
   fst (EventEmitter_emit (\<lambda>cb d. if cb = 1 then Some (JError ''boom'') else None)
          (EventEmitter_register [(''click'', 1::nat), (''click'', 2)]) ''click'' (JNum 5)) =
     ([(1, JNum 5)], Some (JError ''boom''))"
  by (simp add: EventEmitter_emit_def EventEmitter_register_def EventEmitter_def EventEmitter_on_def
      MemoryEfficientEmitter_emit_def MemoryEfficientEmitter_register_def MemoryEfficientEmitter_def
      MemoryEfficientEmitter_on_def set_add_def)

text \<open>
  C2, amended. The callbacks are those that leave the emitter alone while they run:
  they return or throw, and do not call \<open>on\<close>, \<open>off\<close> or \<open>emit\<close> on it. After any
  sequence of \<open>on(event, callback)\<close> calls with such callbacks on a new emitter,
  \<open>emit(event, data)\<close> calls callbacks registered for that event and no others, passes
  \<open>data\<close> to each, stops at the first that throws (whose error it throws on), and
  leaves the emitter as it was. \<open>EventEmitter\<close> and \<open>EventSystem\<close> call once per
  registration, in registration order, so a callback registered several times is called
  several times; \<open>MemoryEfficientEmitter\<close> calls each distinct callback once, in the
  order of the first registrations. When no callback throws, all of these are called;
  when moreover the callbacks registered for the event are distinct, the three emitters
  make the same calls, one per registered callback in registration order. For an event
  with no registration, \<open>emit\<close> makes no call, throws nothing and leaves the emitter
  as it was.
\<close>

theorem emitters_dispatch:
  "EventEmitter_emit bh (EventEmitter_register regs) e d =
     ((map (\<lambda>cb. (cb, d)) (reached bh (registered regs e) d), thrown_by bh (registered regs e) d),
      EventEmitter_register regs) \<and>
   EventSystem_emit bh (EventSystem_register regs) e d =
     ((map (\<lambda>cb. (cb, d)) (reached bh (registered regs e) d), thrown_by bh (registered regs e) d),
      EventSystem_register regs) \<and>
   MemoryEfficientEmitter_emit bh (MemoryEfficientEmitter_register regs) e d =
     ((map (\<lambda>cb. (cb, d)) (reached bh (first_occurrences (registered regs e)) d),
       thrown_by bh (first_occurrences (registered regs e)) d),
      MemoryEfficientEmitter_register regs) \<and>
   ((\<forall>cb\<in>set (registered regs e). bh cb d = None) \<longrightarrow>
      EventEmitter_emit bh (EventEmitter_register regs) e d =
        ((map (\<lambda>cb. (cb, d)) (registered regs e), None), EventEmitter_register regs) \<and>
      EventSystem_emit bh (EventSystem_register regs) e d =
        ((map (\<lambda>cb. (cb, d)) (registered regs e), None), EventSystem_register regs) \<and>
      MemoryEfficientEmitter_emit bh (MemoryEfficientEmitter_register regs) e d =
        ((map (\<lambda>cb. (cb, d)) (first_occurrences (registered regs e)), None),
         MemoryEfficientEmitter_register regs)) \<and>
   (distinct (registered regs e) \<longrightarrow> first_occurrences (registered regs e) = registered regs e) \<and>
   (registered regs e = [] \<longrightarrow>
      EventEmitter_emit bh (EventEmitter_register regs) e d = (([], None), EventEmitter_register regs) \<and>
      EventSystem_emit bh (EventSystem_register regs) e d = (([], None), EventSystem_register regs) \<and>
      MemoryEfficientEmitter_emit bh (MemoryEfficientEmitter_register regs) e d =
        (([], None), MemoryEfficientEmitter_register regs))"
proof -
  have set_first: "set (first_occurrences (registered regs e)) = set (registered regs e)"
    by (simp add: first_occurrences_def)
  have a: "EventEmitter_emit bh (EventEmitter_register regs) e d =
     ((map (\<lambda>cb. (cb, d)) (reached bh (registered regs e) d), thrown_by bh (registered regs e) d),
      EventEmitter_register regs)"
    by (simp add: EventEmitter_emit_registered forEach_call_reached)
  have b: "EventSystem_emit bh (EventSystem_register regs) e d =
     ((map (\<lambda>cb. (cb, d)) (reached bh (registered regs e) d), thrown_by bh (registered regs e) d),
      EventSystem_register regs)"
    by (simp add: EventSystem_emit_registered forEach_call_reached)
  have c: "MemoryEfficientEmitter_emit bh (MemoryEfficientEmitter_register regs) e d =
     ((map (\<lambda>cb. (cb, d)) (reached bh (first_occurrences (registered regs e)) d),
       thrown_by bh (first_occurrences (registered regs e)) d),
      MemoryEfficientEmitter_register regs)"
    by (simp add: MemoryEfficientEmitter_emit_registered forEach_call_reached)
  have quiet: "(\<forall>cb\<in>set (registered regs e). bh cb d = None) \<longrightarrow>
      reached bh (registered regs e) d = registered regs e \<and>
      thrown_by bh (registered regs e) d = None \<and>
      reached bh (first_occurrences (registered regs e)) d = first_occurrences (registered regs e) \<and>
      thrown_by bh (first_occurrences (registered regs e)) d = None"
    using reached_all [of "registered regs e" bh d]
      reached_all [of "first_occurrences (registered regs e)" bh d] set_first
    by simp
  have none: "registered regs e = [] \<longrightarrow>
      reached bh (registered regs e) d = [] \<and> thrown_by bh (registered regs e) d = None \<and>
      reached bh (first_occurrences (registered regs e)) d = [] \<and>
      thrown_by bh (first_occurrences (registered regs e)) d = None"
    by (simp add: reached_def thrown_by_def first_occurrences_def)
  have dist: "distinct (registered regs e) \<longrightarrow> first_occurrences (registered regs e) = registered regs e"
    by (simp add: first_occurrences_distinct)
  from a b c quiet none dist show ?thesis
    by simp
qed

theorem emitters_dispatch_witness:
  "EventEmitter_emit (\<lambda>cb d. None)
      (EventEmitter_register [(''click'', 7::nat), (''key'', 8), (''click'', 9), (''click'', 7)])
      ''click'' (JNum 5) =
     (([(7, JNum 5), (9, JNum 5), (7, JNum 5)], None),
      EventEmitter_register [(''click'', 7), (''key'', 8), (''click'', 9), (''click'', 7)]) \<and>
   EventSystem_emit (\<lambda>cb d. None)
      (EventSystem_register [(''click'', 7::nat), (''key'', 8), (''click'', 9), (''click'', 7)])
      ''click'' (JNum 5) =
     (([(7, JNum 5), (9, JNum 5), (7, JNum 5)], None),
      EventSystem_register [(''click'', 7), (''key'', 8), (''click'', 9), (''click'', 7)]) \<and>
   MemoryEfficientEmitter_emit (\<lambda>cb d. None)
      (MemoryEfficientEmitter_register [(''click'', 7::nat), (''key'', 8), (''click'', 9), (''click'', 7)])
      ''click'' (JNum 5) =
     (([(7, JNum 5), (9, JNum 5)], None),
      MemoryEfficientEmitter_register [(''click'', 7), (''key'', 8), (''click'', 9), (''click'', 7)]) \<and>
   first_occurrences (registered [(''click'', 7::nat), (''key'', 8), (''click'', 9)] ''click'') =
     registered [(''click'', 7), (''key'', 8), (''click'', 9)] ''click'' \<and>
   EventEmitter_emit (\<lambda>cb d. None)
      (EventEmitter_register [(''click'', 7::nat), (''key'', 8), (''click'', 9), (''click'', 7)])
      ''scroll'' (JNum 5) =
     (([], None), EventEmitter_register [(''click'', 7), (''key'', 8), (''click'', 9), (''click'', 7)]) \<and>
   EventSystem_emit (\<lambda>cb d. None)
      (EventSystem_register [(''click'', 7::nat), (''key'', 8), (''click'', 9), (''click'', 7)])
      ''scroll'' (JNum 5) =
     (([], None), EventSystem_register [(''click'', 7), (''key'', 8), (''click'', 9), (''click'', 7)]) \<and>
   MemoryEfficientEmitter_emit (\<lambda>cb d. None)
      (MemoryEfficientEmitter_register [(''click'', 7::nat), (''key'', 8), (''click'', 9), (''click'', 7)])
      ''scroll'' (JNum 5) =
     (([], None),
      MemoryEfficientEmitter_register [(''click'', 7), (''key'', 8), (''click'', 9), (''click'', 7)])"
proof -
  let ?regs = "[(''click'', 7::nat), (''key'', 8), (''click'', 9), (''click'', 7)]"
  let ?once = "[(''click'', 7::nat), (''key'', 8), (''click'', 9)]"
  let ?bh = "\<lambda>(cb::nat) (d::jsval). None :: jsval option"
  have click: "registered ?regs ''click'' = [7, 9, 7]"
    by (simp add: registered_def)
  have first: "first_occurrences [7::nat, 9, 7] = [7, 9]"
    by (simp add: first_occurrences_def)
  have scroll: "registered ?regs ''scroll'' = []"
    by (simp add: registered_def)
  have once: "distinct (registered ?once ''click'')"
    by (simp add: registered_def)
  from emitters_dispatch [of ?bh ?regs "''click''" "JNum 5"]
  have 1: "EventEmitter_emit ?bh (EventEmitter_register ?regs) ''click'' (JNum 5) =
        ((map (\<lambda>cb. (cb, JNum 5)) (registered ?regs ''click''), None), EventEmitter_register ?regs) \<and>
      EventSystem_emit ?bh (EventSystem_register ?regs) ''click'' (JNum 5) =
        ((map (\<lambda>cb. (cb, JNum 5)) (registered ?regs ''click''), None), EventSystem_register ?regs) \<and>
      MemoryEfficientEmitter_emit ?bh (MemoryEfficientEmitter_register ?regs) ''click'' (JNum 5) =
        ((map (\<lambda>cb. (cb, JNum 5)) (first_occurrences (registered ?regs ''click'')), None),
         MemoryEfficientEmitter_register ?regs)"
    by blast
  from emitters_dispatch [of ?bh ?once "''click''" "JNum 5"] once
  have 2: "first_occurrences (registered ?once ''click'') = registered ?once ''click''"
    by blast
  from emitters_dispatch [of ?bh ?regs "''scroll''" "JNum 5"] scroll
  have 3: "EventEmitter_emit ?bh (EventEmitter_register ?regs) ''scroll'' (JNum 5) =
        (([], None), EventEmitter_register ?regs) \<and>
      EventSystem_emit ?bh (EventSystem_register ?regs) ''scroll'' (JNum 5) =
        (([], None), EventSystem_register ?regs) \<and>
      MemoryEfficientEmitter_emit ?bh (MemoryEfficientEmitter_register ?regs) ''scroll'' (JNum 5) =
        (([], None), MemoryEfficientEmitter_register ?regs)"
    by blast
  from 1 2 3 show ?thesis
    by (simp add: click first)
qed

section \<open>Test runner: counts, and the cleanup hook after a failing test\<close>

lemma runTests_loop_counts:
  "runTests_loop r ts res out w = (Inr res', out', w') \<Longrightarrow>
   passed res' + failed res' = passed res + failed res + int (length ts) \<and> total res' = total res"
proof (induction ts arbitrary: res out w)
  case Nil
  then show ?case by simp
next
  case (Cons t ts)
  obtain name testFn where t: "t = (name, testFn)"
    by (cases t)
  obtain thrown w1 where tb: "try_block r testFn w = (thrown, w1)"
    by (cases "try_block r testFn w")
  show ?case
  proof (cases thrown)
    case None
    with Cons.prems t tb
    have "runTests_loop r ts (res\<lparr>passed := passed res + 1\<rparr>) (out @ [ConsoleLog name]) w1 =
        (Inr res', out', w')"
      by simp
    from Cons.IH [OF this] show ?thesis by simp
  next
    case (Some error)
    show ?thesis
    proof (cases "message_of error")
      case (Inl typeError)
      with Cons.prems t tb Some show ?thesis by simp
    next
      case (Inr message)
      with Cons.prems t tb Some
      have "runTests_loop r ts
          (res\<lparr>failed := failed res + 1, failures_r := failures_r res @ [(name, error)]\<rparr>)
          (out @ [ConsoleError name message]) w1 = (Inr res', out', w')"
        by simp
      from Cons.IH [OF this] show ?thesis by simp
    qed
  qed
qed

lemma runTests_counts:
  "runTests r w = (Inr res, out, w') \<Longrightarrow>
   total res = map_size (tests r) \<and> passed res + failed res = total res"
  using runTests_loop_counts [of r "tests r"
      "\<lparr>passed = 0, failed = 0, total = map_size (tests r), failures_r = []\<rparr>" "[]" w res out w']
  by (simp add: runTests_def map_size_def)

text \<open>
  C3. The source says of \<open>after\<close>: "Cleanup function to run after each test". In
  \<open>runTests\<close> the call of the hook stands inside the \<open>try\<close> block, behind the test, so
  a test that throws skips it. Here the surroundings are the list of what ran. With a
  \<open>before\<close> hook, an \<open>after\<close> hook and one test that throws, the run is
  \<open>setup, test\<close>: the test is reported as failed with its error, the counts add up,
  and the cleanup never runs. With a test that returns, the run is
  \<open>setup, test, cleanup\<close>.
\<close>

theorem runTests_skips_afterEach_on_failure:
  "runTests
     (after (before (test TestRunner ''t'' (\<lambda>w. (Some (JError ''no''), w @ [''test''])))
               (\<lambda>w. (None, w @ [''setup''])))
            (\<lambda>w. (None, w @ [''cleanup''])))
     [] =
   (Inr \<lparr>passed = 0, failed = 1, total = 1, failures_r = [(''t'', JError ''no'')]\<rparr>,
    [ConsoleError ''t'' (JStr ''no'')],
    [''setup'', ''test'']) \<and>
   runTests
     (after (before (test TestRunner ''t'' (\<lambda>w. (None, w @ [''test''])))
               (\<lambda>w. (None, w @ [''setup''])))
            (\<lambda>w. (None, w @ [''cleanup''])))
     [] =
   (Inr \<lparr>passed = 1, failed = 0, total = 1, failures_r = []\<rparr>,
    [ConsoleLog ''t''],
    [''setup'', ''test'', ''cleanup''])"
  by (simp add: runTests_def after_def before_def test_def TestRunner_def map_set_def map_has_def
      map_size_def try_block_def message_of_def)

section \<open>Export blocks: loading without a module object\<close>

lemma run_export_guarded: "run_export (Guarded names) Undeclared = Inr Undeclared"
  by (simp add: typeof_module_def)

lemma run_export_unguarded:
  "run_export (Unguarded names) Undeclared = Inl (JError ''ReferenceError: module is not defined'')"
  by (simp add: assign_exports_def)

lemma run_export_module: "run_export (Guarded names) (Module old) = Inr (Module names)"
  by (simp add: typeof_module_def assign_exports_def)

text \<open>
  C7. Every export statement of the source files is guarded: run where no \<open>module\<close>
  is declared, it throws nothing (no ReferenceError in particular) and changes
  nothing. (A bare assignment would throw there, by \<open>run_export_unguarded\<close>.)
\<close>

theorem export_statements_guarded:
  "\<forall>(file, line, stmt) \<in> set export_statements. run_export stmt Undeclared = Inr Undeclared"
  by (simp add: export_statements_def typeof_module_def)

theorem export_statements_guarded_witness:
  "(''01_JS_Introduction.js'', 216, Guarded [''helloWorld'', ''detectEnvironment'', ''safeOperation''])
     \<in> set export_statements \<and>
   run_export (Guarded [''helloWorld'', ''detectEnvironment'', ''safeOperation'']) Undeclared =
     Inr Undeclared"
proof
  show m: "(''01_JS_Introduction.js'', 216, Guarded [''helloWorld'', ''detectEnvironment'', ''safeOperation''])
     \<in> set export_statements"
    by (simp add: export_statements_def)
  from export_statements_guarded m
  show "run_export (Guarded [''helloWorld'', ''detectEnvironment'', ''safeOperation'']) Undeclared =
     Inr Undeclared"
    by blast
qed

end
